theory Spec2Isabelle
  imports Main
begin

section \<open>Owner-to-tag synchronisation for a document platform\<close>

text \<open>
  This theory embeds \<^verbatim>\<open>paperless_owner_tag_sync.py\<close>: the class \<^verbatim>\<open>PaperlessSync\<close>
  (API client, tag-name resolution, single-document and full synchronisation) and the
  webhook handler of \<^verbatim>\<open>WebhookServer\<close>.

  The program talks to a remote platform over HTTP, writes log lines and otherwise keeps
  no state. Everything outside the program is collected in one record, the \<open>world\<close>:
  the documents, users and tags the platform stores, the outcome of every future request
  on the wire, the requests sent so far and the lines logged so far. Each method of the
  source becomes a function that takes the world and returns its result with the new world.
  The calls to \<^verbatim>\<open>time.sleep\<close> have no counterpart: time is not modelled.
\<close>

subsection \<open>Python dictionaries and truthiness\<close>

text \<open>
  A dictionary is a map. \<open>dict_of\<close> is the loop \<^verbatim>\<open>for x in results: d[key] = value\<close>:
  a later entry with the same key replaces an earlier one.
\<close>

definition dict_of :: "('k \<times> 'v) list \<Rightarrow> ('k \<rightharpoonup> 'v)" where
  "dict_of kvs = foldl (\<lambda>m (k, v). m(k \<mapsto> v)) Map.empty kvs"

text \<open>An integer is falsy exactly when it is zero; \<^verbatim>\<open>None\<close> is falsy.\<close>

definition truthy_int :: "int option \<Rightarrow> bool" where
  "truthy_int x = (case x of None \<Rightarrow> False | Some i \<Rightarrow> i \<noteq> 0)"

subsection \<open>Data model\<close>

text \<open>
  A document as the platform's JSON gives it: \<^verbatim>\<open>doc['id']\<close>, \<^verbatim>\<open>doc['title']\<close>,
  \<^verbatim>\<open>doc.get('owner')\<close> (\<open>None\<close> for a missing or null owner) and
  \<^verbatim>\<open>doc.get('tags', [])\<close>.
\<close>

record document =
  d_id :: int
  d_title :: string
  d_owner :: "int option"
  d_tags :: "int list"

text \<open>The fields that \<^verbatim>\<open>PaperlessSync.__init__\<close> sets (the logger lives in the world).\<close>

record PaperlessSync =
  base_url :: string
  headers :: "(string \<times> string) list"
  tag_prefix :: string
  owner_tag_mapping :: "string \<rightharpoonup> string"

definition rstrip_slash :: "string \<Rightarrow> string" where
  "rstrip_slash s = rev (dropWhile (\<lambda>c. c = CHR ''/'') (rev s))"

text \<open>
  \<^verbatim>\<open>__init__(self, base_url, token, tag_prefix="owner:", owner_tag_mapping=None)\<close>:
  an argument left out is \<open>None\<close> here; \<^verbatim>\<open>owner_tag_mapping or {}\<close> turns a missing
  mapping into the empty one.
\<close>

definition PaperlessSync_init ::
  "string \<Rightarrow> string \<Rightarrow> string option \<Rightarrow> (string \<rightharpoonup> string) option \<Rightarrow> PaperlessSync" where
  "PaperlessSync_init url token prefix mapping =
     \<lparr> base_url = rstrip_slash url,
       headers = [(''Authorization'', ''Token '' @ token),
                  (''Content-Type'', ''application/json'')],
       tag_prefix = (case prefix of None \<Rightarrow> ''owner:'' | Some p \<Rightarrow> p),
       owner_tag_mapping = (case mapping of None \<Rightarrow> Map.empty | Some m \<Rightarrow> m) \<rparr>"

subsection \<open>The world: platform, network and log\<close>

datatype request =
    GET_users
  | GET_tags
  | POST_tag string string
  | GET_document int
  | GET_documents nat
  | PATCH_document int "int list"

datatype level = DEBUG | INFO | WARNING | ERROR

text \<open>
  A Python string that comes from outside (a URL, the text of a JSON value) is a list of
  Unicode code points, \<open>ustr\<close>; \<open>ascii\<close> reads an ASCII literal of the source as
  such a list. Names and titles are kept as \<open>string\<close>: the program only compares and
  concatenates them.
\<close>

type_synonym codepoint = nat

type_synonym ustr = "codepoint list"

definition ascii :: "string \<Rightarrow> ustr" where
  "ascii s = map of_char s"

datatype arg = S string | I int | U ustr

type_synonym log_record = "level \<times> string \<times> arg list"

text \<open>
  \<^item> \<open>w_documents\<close>, \<open>w_users\<close>, \<open>w_tags\<close>: what the platform stores, in the order in
    which it lists them; \<open>w_next_tag_id\<close> is the identifier it gives to the next tag it
    creates and \<open>w_page_size\<close> the length of a page of its document listing.
  \<^item> \<open>w_net\<close>: request number \<open>k\<close> (counting from 0) gets through exactly when
    \<open>w_net k\<close> holds; otherwise \<^verbatim>\<open>requests\<close> raises a \<^verbatim>\<open>RequestException\<close>
    and the platform is not reached.
  \<^item> \<open>w_requests\<close>: the requests sent so far; \<open>w_log\<close>: the calls to the logger so far.
  \<^item> \<open>w_max_str_digits\<close>: the interpreter's limit on the length of a decimal string that
    \<^verbatim>\<open>int\<close> converts (\<^verbatim>\<open>sys.get_int_max_str_digits()\<close>, 0 for no limit).
  \<^item> \<open>w_unicode_decimal\<close>: the interpreter's Unicode database beyond ASCII: for a code
    point from 128 on that is a decimal digit (category \<open>Nd\<close>), its decimal value.
\<close>

record world =
  w_documents :: "document list"
  w_users :: "(int \<times> string) list"
  w_tags :: "(string \<times> int) list"
  w_next_tag_id :: int
  w_page_size :: nat
  w_net :: "nat \<Rightarrow> bool"
  w_requests :: "request list"
  w_log :: "log_record list"
  w_max_str_digits :: nat
  w_unicode_decimal :: "codepoint \<Rightarrow> nat option"

definition log :: "level \<Rightarrow> string \<Rightarrow> arg list \<Rightarrow> world \<Rightarrow> world" where
  "log lv msg args w = w\<lparr>w_log := w_log w @ [(lv, msg, args)]\<rparr>"

text \<open>Sending a request records it and tells whether it got through.\<close>

definition send :: "request \<Rightarrow> world \<Rightarrow> bool \<times> world" where
  "send r w = (w_net w (length (w_requests w)), w\<lparr>w_requests := w_requests w @ [r]\<rparr>)"

subsection \<open>API client\<close>

text \<open>
  \<^verbatim>\<open>get_users\<close> and \<^verbatim>\<open>get_tags\<close> read the \<^verbatim>\<open>results\<close> of one response; the platform
  is taken to list every user and every tag in it. A failed request gives the empty
  dictionary.
\<close>

definition get_users :: "world \<Rightarrow> (int \<rightharpoonup> string) \<times> world" where
  "get_users w =
     (case send GET_users w of
        (True, w1) \<Rightarrow> (dict_of (w_users w1), w1)
      | (False, w1) \<Rightarrow> (Map.empty, log ERROR ''Failed to fetch users'' [] w1))"

definition get_tags :: "world \<Rightarrow> (string \<rightharpoonup> int) \<times> world" where
  "get_tags w =
     (case send GET_tags w of
        (True, w1) \<Rightarrow> (dict_of (w_tags w1), w1)
      | (False, w1) \<Rightarrow> (Map.empty, log ERROR ''Failed to fetch tags'' [] w1))"

text \<open>
  \<^verbatim>\<open>create_tag\<close>: the platform keeps tag names unique, so it refuses (with an HTTP error,
  which \<^verbatim>\<open>raise_for_status\<close> turns into a \<^verbatim>\<open>RequestException\<close>) a name it already
  has; otherwise it stores the tag under its next identifier and answers with it.
\<close>

definition create_tag :: "string \<Rightarrow> string \<Rightarrow> world \<Rightarrow> int option \<times> world" where
  "create_tag tag_name color w =
     (case send (POST_tag tag_name color) w of
        (ok, w1) \<Rightarrow>
          if ok \<and> tag_name \<notin> fst ` set (w_tags w1) then
            (let tag_id = w_next_tag_id w1;
                 w2 = w1\<lparr>w_tags := w_tags w1 @ [(tag_name, tag_id)],
                         w_next_tag_id := tag_id + 1\<rparr>
             in (Some tag_id, log INFO ''Created tag'' [S tag_name, I tag_id] w2))
          else (None, log ERROR ''Failed to create tag'' [S tag_name] w1))"

definition default_color :: string where
  "default_color = ''#007bff''"

text \<open>\<^verbatim>\<open>get_document\<close>: an unknown identifier is an HTTP error, hence \<open>None\<close>.\<close>

definition get_document :: "int \<Rightarrow> world \<Rightarrow> document option \<times> world" where
  "get_document document_id w =
     (case send (GET_document document_id) w of
        (ok, w1) \<Rightarrow>
          (case (if ok then find (\<lambda>d. d_id d = document_id) (w_documents w1) else None) of
             Some doc \<Rightarrow> (Some doc, w1)
           | None \<Rightarrow> (None, log ERROR ''Failed to fetch document'' [I document_id] w1)))"

text \<open>
  \<^verbatim>\<open>get_all_documents\<close> follows the \<^verbatim>\<open>next\<close> links. The platform serves its documents
  in pages of \<open>w_page_size\<close> (one page if that is 0), at least one page even if it has no
  document. \<open>fetch_pages\<close> is the \<^verbatim>\<open>while next_url\<close> loop over the pages still to come;
  a request that fails anywhere in it makes the whole method return the empty list.
\<close>

function pages_of :: "nat \<Rightarrow> 'a list \<Rightarrow> 'a list list" where
  "pages_of k xs =
     (if k = 0 \<or> length xs \<le> k then [xs] else take k xs # pages_of k (drop k xs))"
  by pat_completeness auto
termination
  by (relation "measure (\<lambda>(k, xs). length xs)") auto

declare pages_of.simps [simp del]

fun fetch_pages ::
  "document list list \<Rightarrow> nat \<Rightarrow> document list \<Rightarrow> world \<Rightarrow> document list option \<times> world" where
  "fetch_pages [] k documents w = (Some documents, w)"
| "fetch_pages (page # pages) k documents w =
     (case send (GET_documents k) w of
        (True, w1) \<Rightarrow> fetch_pages pages (Suc k) (documents @ page) w1
      | (False, w1) \<Rightarrow> (None, w1))"

definition get_all_documents :: "world \<Rightarrow> document list \<times> world" where
  "get_all_documents w =
     (case fetch_pages (pages_of (w_page_size w) (w_documents w)) 0 [] w of
        (Some documents, w1) \<Rightarrow> (documents, w1)
      | (None, w1) \<Rightarrow> ([], log ERROR ''Failed to fetch documents'' [] w1))"

text \<open>
  \<^verbatim>\<open>update_document_tags\<close>: the PATCH replaces the whole tag list of the document;
  an unknown identifier is an HTTP error.
\<close>

definition update_document_tags :: "int \<Rightarrow> int list \<Rightarrow> world \<Rightarrow> bool \<times> world" where
  "update_document_tags document_id tag_ids w =
     (case send (PATCH_document document_id tag_ids) w of
        (ok, w1) \<Rightarrow>
          if ok \<and> document_id \<in> d_id ` set (w_documents w1) then
            (True, w1\<lparr>w_documents :=
                        map (\<lambda>d. if d_id d = document_id then d\<lparr>d_tags := tag_ids\<rparr> else d)
                          (w_documents w1)\<rparr>)
          else (False, log ERROR ''Failed to update document tags'' [I document_id] w1))"

subsection \<open>Tag-name resolution\<close>

definition get_owner_tag_name :: "PaperlessSync \<Rightarrow> string \<Rightarrow> string" where
  "get_owner_tag_name self username =
     (if username \<in> dom (owner_tag_mapping self)
      then the (owner_tag_mapping self username)
      else tag_prefix self @ username)"

subsection \<open>Single-document synchronisation\<close>

text \<open>
  The block that makes sure the owner tag is in the dictionary \<open>tags\<close> occurs twice in the
  source with the same code (in \<^verbatim>\<open>sync_document_owner_tag\<close> and in the loop of
  \<^verbatim>\<open>full_sync\<close>); the two copies differ in the text of the warning only, passed here
  as \<open>warn\<close>. The result is \<open>None\<close> where the source gives the document up
  (\<^verbatim>\<open>return False\<close>, or \<^verbatim>\<open>stats['failed'] += 1; continue\<close>), and the dictionary to
  go on with otherwise. \<^verbatim>\<open>if tag_id:\<close> is a truth test: the identifier 0 counts as a
  failure.
\<close>

definition ensure_owner_tag ::
  "PaperlessSync \<Rightarrow> string \<Rightarrow> string \<Rightarrow> (world \<Rightarrow> world) \<Rightarrow> (string \<rightharpoonup> int) \<Rightarrow> world
     \<Rightarrow> (string \<rightharpoonup> int) option \<times> world" where
  "ensure_owner_tag self username owner_tag_name warn tags w =
     (if owner_tag_name \<notin> dom tags then
        if username \<in> dom (owner_tag_mapping self) then (None, warn w)
        else
          (case create_tag owner_tag_name default_color w of
             (tag_id, w1) \<Rightarrow>
               if truthy_int tag_id then (Some (tags(owner_tag_name \<mapsto> the tag_id)), w1)
               else (None, w1))
      else (Some tags, w))"

definition sync_document_owner_tag :: "PaperlessSync \<Rightarrow> int \<Rightarrow> world \<Rightarrow> bool \<times> world" where
  "sync_document_owner_tag self document_id w0 =
     (case get_document document_id
             (log INFO ''Syncing owner tag for document'' [I document_id] w0) of
        (None, w1) \<Rightarrow> (False, log ERROR ''Could not fetch document'' [I document_id] w1)
      | (Some doc, w1) \<Rightarrow>
          (case get_users w1 of (users, w2) \<Rightarrow>
           case get_tags w2 of (tags, w3) \<Rightarrow>
             let doc_title = d_title doc;
                 owner_id = d_owner doc;
                 current_tag_ids = d_tags doc
             in
               if \<not> truthy_int owner_id \<or> the owner_id \<notin> dom users then
                 (True, log INFO ''Document has no valid owner, skipping'' [I document_id] w3)
               else
                 let username = the (users (the owner_id));
                     owner_tag_name = get_owner_tag_name self username
                 in
                   (case ensure_owner_tag self username owner_tag_name
                           (log WARNING ''Custom mapped tag for user does not exist''
                              [S owner_tag_name, S username]) tags w3 of
                      (None, w4) \<Rightarrow> (False, w4)
                    | (Some tags', w4) \<Rightarrow>
                        let owner_tag_id = the (tags' owner_tag_name) in
                          if owner_tag_id \<in> set current_tag_ids then
                            (True, log INFO ''Document already has owner tag''
                                     [I document_id, S owner_tag_name] w4)
                          else
                            let new_tag_ids = current_tag_ids @ [owner_tag_id] in
                              (case update_document_tags document_id new_tag_ids w4 of
                                 (True, w5) \<Rightarrow>
                                   (True, log INFO ''Added owner tag to document''
                                            [S owner_tag_name, S doc_title, I document_id] w5)
                               | (False, w5) \<Rightarrow> (False, w5)))))"

subsection \<open>Full synchronisation\<close>

record stats =
  total :: nat
  processed :: nat
  succeeded :: nat
  failed :: nat

text \<open>One turn of \<^verbatim>\<open>for doc in documents\<close>; \<^verbatim>\<open>continue\<close> ends the turn.\<close>

definition full_sync_step ::
  "PaperlessSync \<Rightarrow> (int \<rightharpoonup> string) \<Rightarrow> document \<Rightarrow> (string \<rightharpoonup> int) \<Rightarrow> stats \<Rightarrow> world
     \<Rightarrow> (string \<rightharpoonup> int) \<times> stats \<times> world" where
  "full_sync_step self users doc tags stats0 w =
     (let document_id = d_id doc;
          doc_title = d_title doc;
          owner_id = d_owner doc;
          current_tag_ids = d_tags doc;
          stats = stats0\<lparr>processed := processed stats0 + 1\<rparr>
      in
        if \<not> truthy_int owner_id \<or> the owner_id \<notin> dom users then
          (tags, stats, log DEBUG ''Document has no valid owner, skipping''
                          [S doc_title, I document_id] w)
        else
          let username = the (users (the owner_id));
              owner_tag_name = get_owner_tag_name self username
          in
            (case ensure_owner_tag self username owner_tag_name
                    (log WARNING ''Custom mapped tag for user does not exist, skipping document''
                       [S owner_tag_name, S username, I document_id]) tags w of
               (None, w1) \<Rightarrow> (tags, stats\<lparr>failed := failed stats + 1\<rparr>, w1)
             | (Some tags', w1) \<Rightarrow>
                 let owner_tag_id = the (tags' owner_tag_name) in
                   if owner_tag_id \<in> set current_tag_ids then
                     (tags', stats\<lparr>succeeded := succeeded stats + 1\<rparr>,
                      log DEBUG ''Document already has owner tag''
                        [S doc_title, I document_id, S owner_tag_name] w1)
                   else
                     let new_tag_ids = current_tag_ids @ [owner_tag_id] in
                       (case update_document_tags document_id new_tag_ids w1 of
                          (True, w2) \<Rightarrow>
                            (tags', stats\<lparr>succeeded := succeeded stats + 1\<rparr>,
                             log INFO ''Added owner tag to document''
                               [S owner_tag_name, S doc_title, I document_id] w2)
                        | (False, w2) \<Rightarrow>
                            (tags', stats\<lparr>failed := failed stats + 1\<rparr>,
                             log ERROR ''Failed to add owner tag to document''
                               [S doc_title, I document_id] w2))))"

fun full_sync_loop ::
  "PaperlessSync \<Rightarrow> (int \<rightharpoonup> string) \<Rightarrow> document list \<Rightarrow> (string \<rightharpoonup> int) \<Rightarrow> stats \<Rightarrow> world
     \<Rightarrow> (string \<rightharpoonup> int) \<times> stats \<times> world" where
  "full_sync_loop self users [] tags stats w = (tags, stats, w)"
| "full_sync_loop self users (doc # docs) tags stats w =
     (case full_sync_step self users doc tags stats w of
        (tags1, stats1, w1) \<Rightarrow> full_sync_loop self users docs tags1 stats1 w1)"

definition full_sync :: "PaperlessSync \<Rightarrow> world \<Rightarrow> stats \<times> world" where
  "full_sync self w0 =
     (case get_all_documents (log INFO ''Starting full sync of all documents'' [] w0) of
        (documents, w1) \<Rightarrow>
     case get_users w1 of (users, w2) \<Rightarrow>
     case get_tags w2 of (tags, w3) \<Rightarrow>
       if documents = [] then
         (\<lparr>total = 0, processed = 0, succeeded = 0, failed = 0\<rparr>,
          log ERROR ''No documents found or failed to fetch documents'' [] w3)
       else
         let stats = \<lparr>total = length documents, processed = 0, succeeded = 0, failed = 0\<rparr> in
           (case full_sync_loop self users documents tags stats
                   (log INFO ''Found documents to process'' [I (int (total stats))] w3) of
              (tags', stats', w4) \<Rightarrow>
                (stats', log INFO ''Full sync completed''
                           [I (int (succeeded stats')), I (int (failed stats')),
                            I (int (total stats'))] w4)))"

subsection \<open>Document identifier of a URL\<close>

text \<open>
  In a pattern on \<^verbatim>\<open>str\<close>, \<^verbatim>\<open>\d\<close> matches every Unicode decimal digit, and
  \<^verbatim>\<open>int\<close> converts a string of such digits by their decimal values. Below 128 the
  decimal digits are \<^verbatim>\<open>0\<close> to \<^verbatim>\<open>9\<close> (code points 48 to 57); from 128 on they are
  what the Unicode database \<open>nd\<close> of the interpreter says.

  \<^verbatim>\<open>int(s)\<close> on a non-empty string of digits gives its decimal value, unless the
  string is longer than the interpreter's limit: a limit of 0 switches the check off,
  and strings of up to 640 digits (\<^verbatim>\<open>sys.int_info.str_digits_check_threshold\<close>) are
  never refused. A refused string raises \<^verbatim>\<open>ValueError\<close>, here \<open>None\<close>.
\<close>

definition digit_value :: "(codepoint \<Rightarrow> nat option) \<Rightarrow> codepoint \<Rightarrow> nat option" where
  "digit_value nd c =
     (if c < 128 then (if 48 \<le> c \<and> c \<le> 57 then Some (c - 48) else None)
      else (case nd c of Some v \<Rightarrow> if v < 10 then Some v else None | None \<Rightarrow> None))"

definition is_digit :: "(codepoint \<Rightarrow> nat option) \<Rightarrow> codepoint \<Rightarrow> bool" where
  "is_digit nd c = (digit_value nd c \<noteq> None)"

definition decimal :: "(codepoint \<Rightarrow> nat option) \<Rightarrow> ustr \<Rightarrow> int" where
  "decimal nd ds = foldl (\<lambda>n c. 10 * n + int (the (digit_value nd c))) 0 ds"

definition str_digits_check_threshold :: nat where
  "str_digits_check_threshold = 640"

definition py_int :: "(codepoint \<Rightarrow> nat option) \<Rightarrow> nat \<Rightarrow> ustr \<Rightarrow> int option" where
  "py_int nd max_str_digits ds =
     (if str_digits_check_threshold < length ds \<and> 0 < max_str_digits
         \<and> max_str_digits < length ds
      then None else Some (decimal nd ds))"

text \<open>
  \<^verbatim>\<open>re.search(p, s)\<close> tries the pattern at every position of \<open>s\<close> from the left and
  stops at the first match; \<open>re_search m s\<close> does so for a pattern given as the function
  \<open>m\<close> that matches it at the start of a string and returns group 1.
\<close>

fun re_search :: "(ustr \<Rightarrow> 'a option) \<Rightarrow> ustr \<Rightarrow> 'a option" where
  "re_search m [] = m []"
| "re_search m (c # cs) =
     (case m (c # cs) of Some g \<Rightarrow> Some g | None \<Rightarrow> re_search m cs)"

definition starts_with :: "ustr \<Rightarrow> ustr \<Rightarrow> bool" where
  "starts_with p s = (take (length p) s = p)"

definition newline :: codepoint where
  "newline = 10"

text \<open>
  \<^verbatim>\<open>/documents/(\d+)/?$\<close> at the start of \<open>s\<close>: the digits are taken greedily, then an
  optional slash, then \<^verbatim>\<open>$\<close>, which in Python holds at the end of the string and also
  just before a newline that ends the string.
\<close>

definition match_documents :: "(codepoint \<Rightarrow> nat option) \<Rightarrow> ustr \<Rightarrow> ustr option" where
  "match_documents nd s =
     (if starts_with (ascii ''/documents/'') s then
        (let r = drop (length (ascii ''/documents/'')) s;
             ds = takeWhile (is_digit nd) r;
             rest = dropWhile (is_digit nd) r
         in if ds \<noteq> [] \<and> rest \<in> {[], ascii ''/'', [newline], ascii ''/'' @ [newline]}
            then Some ds else None)
      else None)"

text \<open>\<^verbatim>\<open>document_id=(\d+)\<close> at the start of \<open>s\<close>.\<close>

definition match_document_id :: "(codepoint \<Rightarrow> nat option) \<Rightarrow> ustr \<Rightarrow> ustr option" where
  "match_document_id nd s =
     (if starts_with (ascii ''document_id='') s then
        (let ds = takeWhile (is_digit nd) (drop (length (ascii ''document_id='')) s)
         in if ds \<noteq> [] then Some ds else None)
      else None)"

subsection \<open>JSON values\<close>

text \<open>
  What \<^verbatim>\<open>json\<close> parsing yields, numbers being integers here. \<open>JObj\<close> carries the
  items of the parsed dictionary, so its keys are distinct. \<open>truthy\<close> is Python's truth
  test on such a value.
\<close>

datatype json =
    JNull
  | JBool bool
  | JInt int
  | JStr ustr
  | JList "json list"
  | JObj "(ustr \<times> json) list"

fun truthy :: "json \<Rightarrow> bool" where
  "truthy JNull = False"
| "truthy (JBool b) = b"
| "truthy (JInt i) = (i \<noteq> 0)"
| "truthy (JStr s) = (s \<noteq> [])"
| "truthy (JList xs) = (xs \<noteq> [])"
| "truthy (JObj kvs) = (kvs \<noteq> [])"

text \<open>
  \<^verbatim>\<open>extract_document_id_from_url\<close>. The argument is whatever the payload holds under
  \<^verbatim>\<open>url\<close>: on anything but a string \<^verbatim>\<open>re.search\<close> raises \<^verbatim>\<open>TypeError\<close>, which
  the method catches like the \<^verbatim>\<open>ValueError\<close> of \<^verbatim>\<open>int\<close>.
\<close>

definition extract_document_id_from_url :: "json \<Rightarrow> world \<Rightarrow> int option \<times> world" where
  "extract_document_id_from_url url w =
     (case url of
        JStr u \<Rightarrow>
          (case re_search (match_documents (w_unicode_decimal w)) u of
             Some g \<Rightarrow>
               (case py_int (w_unicode_decimal w) (w_max_str_digits w) g of
                  Some n \<Rightarrow> (Some n, w)
                | None \<Rightarrow> (None, log ERROR ''Error extracting document ID from URL'' [U u] w))
           | None \<Rightarrow>
               (case re_search (match_document_id (w_unicode_decimal w)) u of
                  Some g \<Rightarrow>
                    (case py_int (w_unicode_decimal w) (w_max_str_digits w) g of
                       Some n \<Rightarrow> (Some n, w)
                     | None \<Rightarrow>
                         (None, log ERROR ''Error extracting document ID from URL'' [U u] w))
                | None \<Rightarrow>
                    (None, log WARNING ''Could not extract document ID from URL'' [U u] w)))
      | _ \<Rightarrow> (None, log ERROR ''Error extracting document ID from URL'' [] w))"

subsection \<open>Webhook handler\<close>

text \<open>
  \<^verbatim>\<open>request.get_json()\<close> either raises (a body that is not JSON) or returns the parsed
  value, \<open>JNull\<close> for \<^verbatim>\<open>None\<close>. A response is the JSON body with the status code.
  Any exception inside the handler ends in the last \<^verbatim>\<open>except\<close>: status 500 with the
  text of the exception. Calling \<^verbatim>\<open>.get\<close> on a value that is not a dictionary raises
  \<^verbatim>\<open>AttributeError\<close>.
\<close>

datatype get_json_result = Raises ustr | Returns json

type_synonym response = "json \<times> nat"

definition webhook_error :: "ustr \<Rightarrow> world \<Rightarrow> response \<times> world" where
  "webhook_error e w =
     ((JObj [(ascii ''error'', JStr e)], 500), log ERROR ''Webhook error'' [U e] w)"

fun py_type_name :: "json \<Rightarrow> string" where
  "py_type_name JNull = ''NoneType''"
| "py_type_name (JBool b) = ''bool''"
| "py_type_name (JInt i) = ''int''"
| "py_type_name (JStr s) = ''str''"
| "py_type_name (JList xs) = ''list''"
| "py_type_name (JObj kvs) = ''dict''"

definition quoted :: "string \<Rightarrow> string" where
  "quoted s = CHR 0x27 # s @ [CHR 0x27]"

definition no_attribute_get :: "json \<Rightarrow> ustr" where
  "no_attribute_get v =
     ascii (quoted (py_type_name v) @ '' object has no attribute '' @ quoted ''get'')"

definition document_webhook ::
  "PaperlessSync \<Rightarrow> get_json_result \<Rightarrow> world \<Rightarrow> response \<times> world" where
  "document_webhook self req w =
     (case req of
        Raises e \<Rightarrow> webhook_error e w
      | Returns data \<Rightarrow>
          if \<not> truthy data then
            ((JObj [(ascii ''error'', JStr (ascii ''No JSON data received''))], 400), w)
          else
            (case data of
               JObj items \<Rightarrow>
                 let document_url =
                       (case map_of items (ascii ''url'') of None \<Rightarrow> JNull | Some v \<Rightarrow> v) in
                   if \<not> truthy document_url then
                     ((JObj [(ascii ''status'', JStr (ascii ''ignored'')),
                             (ascii ''message'', JStr (ascii ''No URL in payload''))], 200),
                      log WARNING ''Webhook received without URL field'' [] w)
                   else
                     (case extract_document_id_from_url document_url w of
                        (document_id, w1) \<Rightarrow>
                          if \<not> truthy_int document_id then
                            ((JObj [(ascii ''error'', JStr (ascii ''Invalid document URL''))], 400),
                             log ERROR ''Could not extract document ID from URL'' [] w1)
                          else
                            (case sync_document_owner_tag self (the document_id)
                                    (log INFO ''Received webhook for document''
                                       [I (the document_id)] w1) of
                               (True, w2) \<Rightarrow>
                                 ((JObj [(ascii ''status'', JStr (ascii ''success'')),
                                         (ascii ''message'', JStr (ascii ''Document processed'')),
                                         (ascii ''document_id'', JInt (the document_id))], 200),
                                  w2)
                             | (False, w2) \<Rightarrow>
                                 ((JObj [(ascii ''status'', JStr (ascii ''error'')),
                                         (ascii ''message'',
                                          JStr (ascii ''Failed to process document'')),
                                         (ascii ''document_id'', JInt (the document_id))], 500),
                                  w2)))
             | _ \<Rightarrow> webhook_error (no_attribute_get data) w))"

subsection \<open>Example worlds\<close>

text \<open>
  The worlds below know one block of non-ASCII decimal digits, the Arabic-Indic digits
  (code points 1632 to 1641).
\<close>

definition arabic_indic :: "codepoint \<Rightarrow> nat option" where
  "arabic_indic c = (if 1632 \<le> c \<and> c \<le> 1641 then Some (c - 1632) else None)"

text \<open>
  Document 10 belongs to user 3, \<open>jane\<close>, who is mapped to the tag name
  \<open>Jane-Documents\<close>; the platform has no tag of that name.
\<close>

definition jane_world :: world where
  "jane_world =
     \<lparr> w_documents = [\<lparr>d_id = 10, d_title = ''Invoice'', d_owner = Some 3, d_tags = [7]\<rparr>],
       w_users = [(3, ''jane'')], w_tags = [(''inbox'', 7)], w_next_tag_id = 8,
       w_page_size = 25, w_net = (\<lambda>k. True), w_requests = [], w_log = [],
       w_max_str_digits = 4300, w_unicode_decimal = arabic_indic \<rparr>"

definition jane_sync :: PaperlessSync where
  "jane_sync = PaperlessSync_init ''http://localhost:8000'' ''secret'' None
                 (Some [''jane'' \<mapsto> ''Jane-Documents''])"

text \<open>
  Document 11 belongs to user 4, \<open>bob\<close>, who has no entry in the mapping; the platform
  has no tag \<open>owner:bob\<close> yet. \<open>default_sync\<close> is a client built with the default prefix
  and no mapping.
\<close>

definition bob_world :: world where
  "bob_world =
     \<lparr> w_documents = [\<lparr>d_id = 11, d_title = ''Letter'', d_owner = Some 4, d_tags = [7]\<rparr>],
       w_users = [(4, ''bob'')], w_tags = [(''inbox'', 7)], w_next_tag_id = 8,
       w_page_size = 25, w_net = (\<lambda>k. True), w_requests = [], w_log = [],
       w_max_str_digits = 4300, w_unicode_decimal = arabic_indic \<rparr>"

definition default_sync :: PaperlessSync where
  "default_sync = PaperlessSync_init ''http://localhost:8000'' ''secret'' None None"

text \<open>
  The platform of \<open>jane_world\<close> where \<open>jane\<close> is user 0: document 10 belongs to the
  user with identifier 0.
\<close>

definition zero_owner_world :: world where
  "zero_owner_world =
     jane_world\<lparr>w_documents := [\<lparr>d_id = 10, d_title = ''Invoice'', d_owner = Some 0, d_tags = [7]\<rparr>],
                w_users := [(0, ''jane'')]\<rparr>"


text \<open>The same platform once the tag \<open>owner:bob\<close> exists and is on document 11.\<close>

definition tagged_world :: world where
  "tagged_world =
     bob_world\<lparr>w_documents := [\<lparr>d_id = 11, d_title = ''Letter'', d_owner = Some 4, d_tags = [7, 8]\<rparr>],
               w_tags := [(''inbox'', 7), (''owner:bob'', 8)], w_next_tag_id := 9\<rparr>"

subsection \<open>The URL patterns in words\<close>

text \<open>
  The two patterns as the specification words them, to be compared with
  \<open>re_search match_documents\<close> and \<open>re_search match_document_id\<close>; a digit is a
  Unicode decimal digit.
  \<^item> \<open>ends_in_documents nd u g\<close>: \<open>u\<close> ends in \<^verbatim>\<open>/documents/\<close>, the digits \<open>g\<close> and
    an optional slash.
  \<^item> \<open>ends_in_documents_line nd u g\<close>: the same, where a single newline may follow.
  \<^item> \<open>has_document_id nd u\<close>: \<open>u\<close> contains \<^verbatim>\<open>document_id=\<close> followed by a digit.
  \<^item> \<open>first_document_id nd u g\<close>: \<open>g\<close> is the whole run of digits after the first such
    occurrence.
\<close>

definition digits :: "(codepoint \<Rightarrow> nat option) \<Rightarrow> ustr \<Rightarrow> bool" where
  "digits nd g \<longleftrightarrow> g \<noteq> [] \<and> (\<forall>c\<in>set g. is_digit nd c)"

definition line_end :: "ustr \<Rightarrow> bool" where
  "line_end e \<longleftrightarrow> e \<in> {[], ascii ''/'', [newline], ascii ''/'' @ [newline]}"

definition ends_in_documents :: "(codepoint \<Rightarrow> nat option) \<Rightarrow> ustr \<Rightarrow> ustr \<Rightarrow> bool" where
  "ends_in_documents nd u g \<longleftrightarrow>
     digits nd g
     \<and> (\<exists>p. u = p @ ascii ''/documents/'' @ g \<or> u = p @ ascii ''/documents/'' @ g @ ascii ''/'')"

definition ends_in_documents_line :: "(codepoint \<Rightarrow> nat option) \<Rightarrow> ustr \<Rightarrow> ustr \<Rightarrow> bool" where
  "ends_in_documents_line nd u g \<longleftrightarrow>
     digits nd g \<and> (\<exists>p e. line_end e \<and> u = p @ ascii ''/documents/'' @ g @ e)"

definition has_document_id :: "(codepoint \<Rightarrow> nat option) \<Rightarrow> ustr \<Rightarrow> bool" where
  "has_document_id nd u \<longleftrightarrow>
     (\<exists>a c b. u = a @ ascii ''document_id='' @ c # b \<and> is_digit nd c)"

definition first_document_id :: "(codepoint \<Rightarrow> nat option) \<Rightarrow> ustr \<Rightarrow> ustr \<Rightarrow> bool" where
  "first_document_id nd u g \<longleftrightarrow>
     digits nd g
     \<and> (\<exists>p r. u = p @ ascii ''document_id='' @ g @ r \<and> (r = [] \<or> \<not> is_digit nd (hd r))
           \<and> \<not> has_document_id nd (p @ ascii ''document_id=''))"

definition matches_documents_pattern :: "(codepoint \<Rightarrow> nat option) \<Rightarrow> ustr \<Rightarrow> bool" where
  "matches_documents_pattern nd u \<longleftrightarrow> (\<exists>g. ends_in_documents nd u g)"

subsection \<open>Fetching the documents, and the outcomes of one document, in words\<close>

text \<open>
  \<^item> \<open>documents_fetched w\<close>: every request for a page of the document listing gets through.
  \<^item> \<open>pages_sent net c n\<close>: how many of \<open>n\<close> page requests are sent when the first is
    request number \<open>c\<close>: the loop stops after the first that fails.
\<close>

definition documents_fetched :: "world \<Rightarrow> bool" where
  "documents_fetched w \<longleftrightarrow>
     (\<forall>j < length (pages_of (w_page_size w) (w_documents w)).
        w_net w (length (w_requests w) + j))"

fun pages_sent :: "(nat \<Rightarrow> bool) \<Rightarrow> nat \<Rightarrow> nat \<Rightarrow> nat" where
  "pages_sent net c 0 = 0"
| "pages_sent net c (Suc n) = (if net c then Suc (pages_sent net (Suc c) n) else 1)"








subsection \<open>Reconciliation in words\<close>

text \<open>
  Section 4.2 of the specification, step by step, as a function on what the platform
  stores, for a run in which no request fails: fetch the document (\<open>NotFound\<close> if
  absent); skip a document without valid owner; resolve the tag name; if the name is not
  in the tag directory, fail for a mapped username and create the tag otherwise; if the
  tag is on the document do nothing, otherwise append it. One test is the source's and
  not the specification's: an owner identifier 0 is read as no owner, as by
  \<^verbatim>\<open>if not owner_id\<close>.
\<close>

record platform =
  p_documents :: "document list"
  p_users :: "(int \<times> string) list"
  p_tags :: "(string \<times> int) list"
  p_next_tag_id :: int

definition platform_of :: "world \<Rightarrow> platform" where
  "platform_of w =
     \<lparr> p_documents = w_documents w, p_users = w_users w, p_tags = w_tags w,
       p_next_tag_id = w_next_tag_id w \<rparr>"

definition attach :: "int \<Rightarrow> document \<Rightarrow> int \<Rightarrow> platform \<Rightarrow> bool \<times> platform" where
  "attach i doc t p =
     (if t \<in> set (d_tags doc) then (True, p)
      else (True, p\<lparr>p_documents :=
                      map (\<lambda>d. if d_id d = i then d\<lparr>d_tags := d_tags doc @ [t]\<rparr> else d)
                        (p_documents p)\<rparr>))"

definition reconcile :: "PaperlessSync \<Rightarrow> int \<Rightarrow> platform \<Rightarrow> bool \<times> platform" where
  "reconcile self i p =
     (case find (\<lambda>d. d_id d = i) (p_documents p) of
        None \<Rightarrow> (False, p)
      | Some doc \<Rightarrow>
          (case d_owner doc of
             None \<Rightarrow> (True, p)
           | Some oid \<Rightarrow>
               if oid = 0 then (True, p)
               else
                 (case dict_of (p_users p) oid of
                    None \<Rightarrow> (True, p)
                  | Some username \<Rightarrow>
                      (case dict_of (p_tags p) (get_owner_tag_name self username) of
                         Some t \<Rightarrow> attach i doc t p
                       | None \<Rightarrow>
                           if username \<in> dom (owner_tag_mapping self) then (False, p)
                           else
                             attach i doc (p_next_tag_id p)
                               (p\<lparr>p_tags := p_tags p
                                     @ [(get_owner_tag_name self username, p_next_tag_id p)],
                                   p_next_tag_id := p_next_tag_id p + 1\<rparr>)))))"

subsection \<open>Additive changes of a document, in words\<close>

text \<open>
  \<^item> \<open>owner_tag_appended self users tags d d'\<close>: \<open>d'\<close> is \<open>d\<close> with exactly the
    identifier appended that \<open>tags\<close> gives for the tag name of the owner of \<open>d\<close>, and
    that identifier was not on \<open>d\<close>.
  \<^item> \<open>additive self users tags d d'\<close>: \<open>d'\<close> is \<open>d\<close> unchanged, or \<open>d\<close> with its
    owner tag appended.
  \<^item> \<open>patched self users tags docs e e'\<close>: the stored document \<open>e\<close> is unchanged, or
    its tag list has been replaced by that of a fetched document \<open>d\<close> of \<open>docs\<close> with
    the same identifier, with the owner tag of \<open>d\<close> appended.
\<close>

definition owner_tag_appended ::
  "PaperlessSync \<Rightarrow> (int \<rightharpoonup> string) \<Rightarrow> (string \<rightharpoonup> int) \<Rightarrow> document \<Rightarrow> document \<Rightarrow> bool" where
  "owner_tag_appended self users tags d d' \<longleftrightarrow>
     (\<exists>oid username t. d_owner d = Some oid \<and> users oid = Some username
        \<and> tags (get_owner_tag_name self username) = Some t \<and> t \<notin> set (d_tags d)
        \<and> d' = d\<lparr>d_tags := d_tags d @ [t]\<rparr>)"

definition additive ::
  "PaperlessSync \<Rightarrow> (int \<rightharpoonup> string) \<Rightarrow> (string \<rightharpoonup> int) \<Rightarrow> document \<Rightarrow> document \<Rightarrow> bool" where
  "additive self users tags d d' \<longleftrightarrow> d' = d \<or> owner_tag_appended self users tags d d'"

definition patched ::
  "PaperlessSync \<Rightarrow> (int \<rightharpoonup> string) \<Rightarrow> (string \<rightharpoonup> int) \<Rightarrow> document list
     \<Rightarrow> document \<Rightarrow> document \<Rightarrow> bool" where
  "patched self users tags docs e e' \<longleftrightarrow>
     e' = e
     \<or> (\<exists>d\<in>set docs. d_id d = d_id e
          \<and> (\<exists>oid username t. d_owner d = Some oid \<and> users oid = Some username
                \<and> tags (get_owner_tag_name self username) = Some t \<and> t \<notin> set (d_tags d)
                \<and> e' = e\<lparr>d_tags := d_tags d @ [t]\<rparr>))"

section \<open>Properties\<close>

subsection \<open>What each client call changes\<close>

text \<open>
  Every call appends its request to \<open>w_requests\<close>; only \<^verbatim>\<open>create_tag\<close> changes the
  tags of the platform and only \<^verbatim>\<open>update_document_tags\<close> its documents.
\<close>


lemma log_frame [simp]:
  "w_documents (log lv m a w) = w_documents w"
  "w_users (log lv m a w) = w_users w"
  "w_tags (log lv m a w) = w_tags w"
  "w_next_tag_id (log lv m a w) = w_next_tag_id w"
  "w_page_size (log lv m a w) = w_page_size w"
  "w_net (log lv m a w) = w_net w"
  "w_requests (log lv m a w) = w_requests w"
  "w_max_str_digits (log lv m a w) = w_max_str_digits w"
  "w_unicode_decimal (log lv m a w) = w_unicode_decimal w"
  "w_log (log lv m a w) = w_log w @ [(lv, m, a)]"
  by (simp_all add: log_def)

lemma send_frame [simp]:
  "fst (send r w) = w_net w (length (w_requests w))"
  "w_documents (snd (send r w)) = w_documents w"
  "w_users (snd (send r w)) = w_users w"
  "w_tags (snd (send r w)) = w_tags w"
  "w_next_tag_id (snd (send r w)) = w_next_tag_id w"
  "w_page_size (snd (send r w)) = w_page_size w"
  "w_net (snd (send r w)) = w_net w"
  "w_requests (snd (send r w)) = w_requests w @ [r]"
  "w_max_str_digits (snd (send r w)) = w_max_str_digits w"
  "w_log (snd (send r w)) = w_log w"
  by (simp_all add: send_def)

lemma get_users_frame [simp]:
  "fst (get_users w) = (if w_net w (length (w_requests w)) then dict_of (w_users w) else Map.empty)"
  "w_documents (snd (get_users w)) = w_documents w"
  "w_users (snd (get_users w)) = w_users w"
  "w_tags (snd (get_users w)) = w_tags w"
  "w_next_tag_id (snd (get_users w)) = w_next_tag_id w"
  "w_page_size (snd (get_users w)) = w_page_size w"
  "w_net (snd (get_users w)) = w_net w"
  "w_requests (snd (get_users w)) = w_requests w @ [GET_users]"
  "w_max_str_digits (snd (get_users w)) = w_max_str_digits w"
  by (simp_all add: get_users_def case_prod_beta split: bool.splits)

lemma get_tags_frame [simp]:
  "fst (get_tags w) = (if w_net w (length (w_requests w)) then dict_of (w_tags w) else Map.empty)"
  "w_documents (snd (get_tags w)) = w_documents w"
  "w_users (snd (get_tags w)) = w_users w"
  "w_tags (snd (get_tags w)) = w_tags w"
  "w_next_tag_id (snd (get_tags w)) = w_next_tag_id w"
  "w_page_size (snd (get_tags w)) = w_page_size w"
  "w_net (snd (get_tags w)) = w_net w"
  "w_requests (snd (get_tags w)) = w_requests w @ [GET_tags]"
  "w_max_str_digits (snd (get_tags w)) = w_max_str_digits w"
  by (simp_all add: get_tags_def case_prod_beta split: bool.splits)

lemma get_document_frame [simp]:
  "fst (get_document i w) =
     (if w_net w (length (w_requests w)) then find (\<lambda>d. d_id d = i) (w_documents w) else None)"
  "w_documents (snd (get_document i w)) = w_documents w"
  "w_users (snd (get_document i w)) = w_users w"
  "w_tags (snd (get_document i w)) = w_tags w"
  "w_next_tag_id (snd (get_document i w)) = w_next_tag_id w"
  "w_page_size (snd (get_document i w)) = w_page_size w"
  "w_net (snd (get_document i w)) = w_net w"
  "w_requests (snd (get_document i w)) = w_requests w @ [GET_document i]"
  "w_max_str_digits (snd (get_document i w)) = w_max_str_digits w"
  by (simp_all add: get_document_def case_prod_beta split: option.splits)

lemma create_tag_frame [simp]:
  "fst (create_tag n c w) =
     (if w_net w (length (w_requests w)) \<and> n \<notin> fst ` set (w_tags w)
      then Some (w_next_tag_id w) else None)"
  "w_documents (snd (create_tag n c w)) = w_documents w"
  "w_users (snd (create_tag n c w)) = w_users w"
  "w_tags (snd (create_tag n c w)) =
     (if w_net w (length (w_requests w)) \<and> n \<notin> fst ` set (w_tags w)
      then w_tags w @ [(n, w_next_tag_id w)] else w_tags w)"
  "w_page_size (snd (create_tag n c w)) = w_page_size w"
  "w_net (snd (create_tag n c w)) = w_net w"
  "w_requests (snd (create_tag n c w)) = w_requests w @ [POST_tag n c]"
  "w_max_str_digits (snd (create_tag n c w)) = w_max_str_digits w"
  by (simp_all add: create_tag_def case_prod_beta Let_def)

lemma update_document_tags_frame [simp]:
  "fst (update_document_tags i ts w) =
     (w_net w (length (w_requests w)) \<and> i \<in> d_id ` set (w_documents w))"
  "w_documents (snd (update_document_tags i ts w)) =
     (if w_net w (length (w_requests w)) \<and> i \<in> d_id ` set (w_documents w)
      then map (\<lambda>d. if d_id d = i then d\<lparr>d_tags := ts\<rparr> else d) (w_documents w)
      else w_documents w)"
  "w_users (snd (update_document_tags i ts w)) = w_users w"
  "w_tags (snd (update_document_tags i ts w)) = w_tags w"
  "w_next_tag_id (snd (update_document_tags i ts w)) = w_next_tag_id w"
  "w_page_size (snd (update_document_tags i ts w)) = w_page_size w"
  "w_net (snd (update_document_tags i ts w)) = w_net w"
  "w_requests (snd (update_document_tags i ts w)) = w_requests w @ [PATCH_document i ts]"
  "w_max_str_digits (snd (update_document_tags i ts w)) = w_max_str_digits w"
  by (simp_all add: update_document_tags_def case_prod_beta)

subsection \<open>Tag-name resolution\<close>

text \<open>
  C1. For every username \<open>u\<close>: if \<open>u\<close> is a key of the owner-to-tag mapping,
  \<open>get_owner_tag_name\<close> returns the mapped value as it is, whatever the prefix;
  otherwise it returns the prefix followed by \<open>u\<close>, the prefix being \<open>owner:\<close>
  when the constructor is given none. The function is defined for every username.
\<close>

theorem get_owner_tag_name_rule:
  fixes m :: "string \<rightharpoonup> string"
  shows "(owner_tag_mapping self u = Some t \<longrightarrow>
            get_owner_tag_name self u = t \<and> get_owner_tag_name (self\<lparr>tag_prefix := p\<rparr>) u = t)
       \<and> (owner_tag_mapping self u = None \<longrightarrow> get_owner_tag_name self u = tag_prefix self @ u)
       \<and> (m u = Some t \<longrightarrow> get_owner_tag_name (PaperlessSync_init url token prefix (Some m)) u = t)
       \<and> (m u = None \<longrightarrow>
            get_owner_tag_name (PaperlessSync_init url token (Some p) (Some m)) u = p @ u
          \<and> get_owner_tag_name (PaperlessSync_init url token None (Some m)) u = ''owner:'' @ u)
       \<and> get_owner_tag_name (PaperlessSync_init url token (Some p) None) u = p @ u
       \<and> get_owner_tag_name (PaperlessSync_init url token None None) u = ''owner:'' @ u"
  by (auto simp: get_owner_tag_name_def PaperlessSync_init_def)

theorem get_owner_tag_name_rule_witness:
  "get_owner_tag_name
     (PaperlessSync_init ''http://localhost:8000'' ''secret'' (Some ''u-'')
        (Some [''jane'' \<mapsto> ''Jane-Documents''])) ''jane'' = ''Jane-Documents''
   \<and> get_owner_tag_name
     (PaperlessSync_init ''http://localhost:8000'' ''secret'' None
        (Some [''jane'' \<mapsto> ''Jane-Documents''])) ''bob'' = ''owner:bob''"
  using get_owner_tag_name_rule [of "PaperlessSync_init ''http://localhost:8000'' ''secret'' None None" "''jane''" "''Jane-Documents''" "''u-''"
      "[''jane'' \<mapsto> ''Jane-Documents'']" "''http://localhost:8000''" "''secret''" "Some ''u-''"]
    get_owner_tag_name_rule [of "PaperlessSync_init ''http://localhost:8000'' ''secret'' None None" "''bob''" "''x''" "''u-''"
      "[''jane'' \<mapsto> ''Jane-Documents'']" "''http://localhost:8000''" "''secret''" "None"]
  by simp

subsection \<open>Dictionaries built from listings\<close>

lemma foldl_upd_map_of:
  "foldl (\<lambda>m (k, v). m(k \<mapsto> v)) m kvs = m ++ map_of (rev kvs)"
proof (induction kvs arbitrary: m)
  case Nil
  show ?case by simp
next
  case (Cons kv kvs)
  obtain k v where kv: "kv = (k, v)" by (cases kv)
  have "foldl (\<lambda>m (k, v). m(k \<mapsto> v)) m (kv # kvs)
          = foldl (\<lambda>m (k, v). m(k \<mapsto> v)) (m(k \<mapsto> v)) kvs"
    unfolding kv by simp
  also have "\<dots> = m(k \<mapsto> v) ++ map_of (rev kvs)"
    by (rule Cons.IH)
  also have "\<dots> = m ++ ([k \<mapsto> v] ++ map_of (rev kvs))"
    by (rule ext) (simp add: map_add_def split: option.splits)
  also have "\<dots> = m ++ map_of (rev (kv # kvs))"
    unfolding kv by simp
  finally show ?case .
qed

lemma dict_of_map_of: "dict_of kvs = map_of (rev kvs)"
  by (simp add: dict_of_def foldl_upd_map_of)

lemma dom_dict_of: "dom (dict_of kvs) = fst ` set kvs"
  by (simp add: dict_of_map_of dom_map_of_conv_image_fst)

lemma dict_of_snoc: "dict_of (kvs @ [(k, v)]) = (dict_of kvs)(k \<mapsto> v)"
  by (simp add: dict_of_def)

subsection \<open>An explicitly mapped tag is never created\<close>



text \<open>
  C4 as stated fails for an owner with identifier 0: \<open>jane\<close> is in the user directory
  under 0 and mapped to \<open>Jane-Documents\<close>, a tag that the platform does not have, yet
  synchronising her document reports success and the full synchronisation counts no
  failure, because \<^verbatim>\<open>if not owner_id\<close> reads the identifier 0 as no owner.
\<close>

theorem mapped_tag_missing_owner_zero_counterexample:
  "map d_owner (w_documents zero_owner_world) = [Some 0]
   \<and> dict_of (w_users zero_owner_world) 0 = Some ''jane''
   \<and> owner_tag_mapping jane_sync ''jane'' = Some ''Jane-Documents''
   \<and> ''Jane-Documents'' \<notin> fst ` set (w_tags zero_owner_world)
   \<and> fst (sync_document_owner_tag jane_sync 10 zero_owner_world) = True
   \<and> fst (full_sync jane_sync zero_owner_world)
       = \<lparr>total = 1, processed = 1, succeeded = 0, failed = 0\<rparr>"
  by (simp add: zero_owner_world_def jane_world_def jane_sync_def sync_document_owner_tag_def
      full_sync_def full_sync_step_def get_all_documents_def pages_of.simps truthy_int_def
      case_prod_beta Let_def dict_of_def PaperlessSync_init_def)

subsection \<open>A failed fetch of the users\<close>

text \<open>
  C9. In the synchronisation of one document, if the document is fetched and the request
  for the users fails, then whatever owner the document has, the method takes the
  document as having no valid owner: it logs that it skips the document, returns
  \<open>True\<close>, sends no POST and no PATCH, and leaves tags and documents as they were.
\<close>

theorem users_fetch_failure_skips:
  assumes doc: "w_net w (length (w_requests w))"
               "find (\<lambda>d. d_id d = i) (w_documents w) = Some doc"
    and users_fail: "\<not> w_net w (Suc (length (w_requests w)))"
  shows "fst (sync_document_owner_tag self i w) = True
       \<and> w_documents (snd (sync_document_owner_tag self i w)) = w_documents w
       \<and> w_tags (snd (sync_document_owner_tag self i w)) = w_tags w
       \<and> w_requests (snd (sync_document_owner_tag self i w))
           = w_requests w @ [GET_document i, GET_users, GET_tags]
       \<and> last (w_log (snd (sync_document_owner_tag self i w)))
           = (INFO, ''Document has no valid owner, skipping'', [I i])"
  using assms by (simp add: sync_document_owner_tag_def case_prod_beta Let_def)

theorem users_fetch_failure_skips_witness:
  "fst (sync_document_owner_tag jane_sync 10 (jane_world\<lparr>w_net := (\<lambda>k. k \<noteq> 1)\<rparr>)) = True
   \<and> w_requests (snd (sync_document_owner_tag jane_sync 10 (jane_world\<lparr>w_net := (\<lambda>k. k \<noteq> 1)\<rparr>)))
        = [GET_document 10, GET_users, GET_tags]
   \<and> map d_tags (w_documents
        (snd (sync_document_owner_tag jane_sync 10 (jane_world\<lparr>w_net := (\<lambda>k. k \<noteq> 1)\<rparr>)))) = [[7]]"
  using users_fetch_failure_skips [where w = "jane_world\<lparr>w_net := (\<lambda>k. k \<noteq> 1)\<rparr>" and i = 10
      and doc = "hd (w_documents jane_world)" and self = jane_sync]
  by (simp add: jane_world_def)

subsection \<open>Matching the two URL patterns\<close>

lemma starts_with_iff: "starts_with p s \<longleftrightarrow> (\<exists>r. s = p @ r)"
proof
  assume "starts_with p s"
  then have "s = p @ drop (length p) s"
    unfolding starts_with_def by (metis append_take_drop_id)
  then show "\<exists>r. s = p @ r" ..
next
  assume "\<exists>r. s = p @ r"
  then show "starts_with p s" by (auto simp: starts_with_def)
qed

lemma takeWhile_digits_append:
  assumes "\<forall>c\<in>set g. is_digit nd c" "r = [] \<or> \<not> is_digit nd (hd r)"
  shows "takeWhile (is_digit nd) (g @ r) = g" "dropWhile (is_digit nd) (g @ r) = r"
proof -
  have t: "takeWhile (is_digit nd) r = []" using assms(2) by (cases r) auto
  have d: "dropWhile (is_digit nd) r = r" using assms(2) by (cases r) auto
  show "takeWhile (is_digit nd) (g @ r) = g" using assms(1) t by (simp add: takeWhile_append2)
  show "dropWhile (is_digit nd) (g @ r) = r" using assms(1) d by (simp add: dropWhile_append2)
qed

lemma line_end_no_digit: "line_end e \<Longrightarrow> e = [] \<or> \<not> is_digit nd (hd e)"
  by (auto simp: line_end_def is_digit_def digit_value_def newline_def ascii_def)

lemma match_documents_iff:
  "match_documents nd s = Some g \<longleftrightarrow>
     (\<exists>e. s = (ascii ''/documents/'') @ g @ e \<and> g \<noteq> [] \<and> (\<forall>c\<in>set g. is_digit nd c) \<and> line_end e)"
proof
  assume m: "match_documents nd s = Some g"
  then have sw: "starts_with (ascii ''/documents/'') s"
    by (simp add: match_documents_def split: if_splits)
  then obtain r where r: "s = (ascii ''/documents/'') @ r" by (auto simp: starts_with_iff)
  from m sw r have g: "g = takeWhile (is_digit nd) r" "g \<noteq> []" "line_end (dropWhile (is_digit nd) r)"
    by (auto simp: match_documents_def Let_def line_end_def split: if_splits)
  have "r = g @ dropWhile (is_digit nd) r" by (simp add: g(1))
  moreover have "\<forall>c\<in>set g. is_digit nd c" unfolding g(1) by (meson set_takeWhileD)
  ultimately show "\<exists>e. s = (ascii ''/documents/'') @ g @ e \<and> g \<noteq> [] \<and> (\<forall>c\<in>set g. is_digit nd c) \<and> line_end e"
    using r g(2,3) by metis
next
  assume "\<exists>e. s = (ascii ''/documents/'') @ g @ e \<and> g \<noteq> [] \<and> (\<forall>c\<in>set g. is_digit nd c) \<and> line_end e"
  then obtain e where e: "s = (ascii ''/documents/'') @ g @ e" "g \<noteq> []" "\<forall>c\<in>set g. is_digit nd c" "line_end e"
    by blast
  have sw: "starts_with (ascii ''/documents/'') s" unfolding starts_with_iff using e(1) by blast
  have dr: "drop (length (ascii ''/documents/'')) s = g @ e" using e(1) by simp
  note td = takeWhile_digits_append [OF e(3) line_end_no_digit [OF e(4)]]
  show "match_documents nd s = Some g"
    unfolding match_documents_def Let_def dr td using sw e(2,4) by (simp add: line_end_def)
qed

lemma match_document_id_iff:
  "match_document_id nd s = Some g \<longleftrightarrow>
     (\<exists>r. s = (ascii ''document_id='') @ g @ r \<and> g \<noteq> [] \<and> (\<forall>c\<in>set g. is_digit nd c)
          \<and> (r = [] \<or> \<not> is_digit nd (hd r)))"
proof
  assume m: "match_document_id nd s = Some g"
  then have sw: "starts_with (ascii ''document_id='') s"
    by (simp add: match_document_id_def split: if_splits)
  then obtain r where r: "s = (ascii ''document_id='') @ r" by (auto simp: starts_with_iff)
  from m sw r have g: "g = takeWhile (is_digit nd) r" "g \<noteq> []"
    by (auto simp: match_document_id_def Let_def split: if_splits)
  have "r = g @ dropWhile (is_digit nd) r" by (simp add: g(1))
  moreover have "\<forall>c\<in>set g. is_digit nd c" unfolding g(1) by (meson set_takeWhileD)
  moreover have "dropWhile (is_digit nd) r = [] \<or> \<not> is_digit nd (hd (dropWhile (is_digit nd) r))"
    by (metis hd_dropWhile)
  ultimately show "\<exists>r. s = (ascii ''document_id='') @ g @ r \<and> g \<noteq> [] \<and> (\<forall>c\<in>set g. is_digit nd c)
          \<and> (r = [] \<or> \<not> is_digit nd (hd r))"
    using r g(2) by metis
next
  assume "\<exists>r. s = (ascii ''document_id='') @ g @ r \<and> g \<noteq> [] \<and> (\<forall>c\<in>set g. is_digit nd c)
          \<and> (r = [] \<or> \<not> is_digit nd (hd r))"
  then obtain r where e: "s = (ascii ''document_id='') @ g @ r" "g \<noteq> []" "\<forall>c\<in>set g. is_digit nd c"
      "r = [] \<or> \<not> is_digit nd (hd r)"
    by blast
  have sw: "starts_with (ascii ''document_id='') s" unfolding starts_with_iff using e(1) by blast
  have dr: "drop (length (ascii ''document_id='')) s = g @ r" using e(1) by simp
  note td = takeWhile_digits_append [OF e(3) e(4)]
  show "match_document_id nd s = Some g"
    unfolding match_document_id_def Let_def dr td using sw e(2) by simp
qed

lemma re_search_Some:
  "re_search m s = Some g \<Longrightarrow> \<exists>p q. s = p @ q \<and> m q = Some g"
proof (induction s)
  case Nil
  then show ?case by simp
next
  case (Cons c cs)
  show ?case
  proof (cases "m (c # cs)")
    case None
    with Cons.prems have "re_search m cs = Some g" by simp
    from Cons.IH [OF this] obtain p q where "cs = p @ q" "m q = Some g" by blast
    then have "c # cs = (c # p) @ q \<and> m q = Some g" by simp
    then show ?thesis by blast
  next
    case (Some g')
    with Cons.prems have "m (c # cs) = Some g" by simp
    then have "c # cs = [] @ (c # cs) \<and> m (c # cs) = Some g" by simp
    then show ?thesis by blast
  qed
qed

lemma re_search_None:
  "(\<And>p q. s = p @ q \<Longrightarrow> m q = None) \<Longrightarrow> re_search m s = None"
proof (induction s)
  case Nil
  then show ?case by simp
next
  case (Cons c cs)
  have "m (c # cs) = None" using Cons.prems [of "[]" "c # cs"] by simp
  moreover have "re_search m cs = None"
  proof (rule Cons.IH)
    fix p q assume "cs = p @ q"
    then show "m q = None" using Cons.prems [of "c # p" q] by simp
  qed
  ultimately show ?case by simp
qed

lemma re_search_leftmost:
  assumes "m q = Some g" "\<And>a b. p = a @ b \<Longrightarrow> b \<noteq> [] \<Longrightarrow> m (b @ q) = None \<or> m (b @ q) = Some g"
  shows "re_search m (p @ q) = Some g"
  using assms
proof (induction p)
  case Nil
  then show ?case by (cases q) auto
next
  case (Cons c p)
  have here: "m (c # p @ q) = None \<or> m (c # p @ q) = Some g"
    using Cons.prems(2) [of "[]" "c # p"] by simp
  have rest: "re_search m (p @ q) = Some g"
  proof (rule Cons.IH [OF Cons.prems(1)])
    fix a b assume "p = a @ b" "b \<noteq> []"
    then show "m (b @ q) = None \<or> m (b @ q) = Some g"
      using Cons.prems(2) [of "c # a" b] by simp
  qed
  from here rest show ?case by auto
qed

lemma d_not_digit: "\<not> is_digit nd (100::nat)"
  by (simp add: is_digit_def digit_value_def)

lemma d_not_in_line_end: "line_end e \<Longrightarrow> (100::nat) \<notin> set e"
  unfolding line_end_def newline_def by (auto simp: ascii_def)

lemma digits_no_d:
  assumes "\<forall>c\<in>set g. is_digit nd c" "line_end e"
  shows "filter (\<lambda>c. c = (100::nat)) (g @ e) = []"
proof -
  have "(100::nat) \<notin> set g" using assms(1) d_not_digit by blast
  moreover have "(100::nat) \<notin> set e" using assms(2) by (rule d_not_in_line_end)
  ultimately show ?thesis by (auto simp: filter_empty_conv)
qed

lemma match_documents_not_inside:
  assumes "b \<noteq> []" "\<forall>c\<in>set g. is_digit nd c" "line_end e"
  shows "match_documents nd (b @ (ascii ''/documents/'') @ g @ e) = None"
proof (rule ccontr)
  assume "match_documents nd (b @ (ascii ''/documents/'') @ g @ e) \<noteq> None"
  then obtain g' where "match_documents nd (b @ (ascii ''/documents/'') @ g @ e) = Some g'" by blast
  then obtain e' where eq: "b @ (ascii ''/documents/'') @ g @ e = (ascii ''/documents/'') @ g' @ e'"
      and g': "\<forall>c\<in>set g'. is_digit nd c" and e': "line_end e'"
    unfolding match_documents_iff by blast
  have "filter (\<lambda>c. c = (100::nat)) (b @ (ascii ''/documents/'') @ g @ e)
          = filter (\<lambda>c. c = (100::nat)) ((ascii ''/documents/'') @ g' @ e')"
    by (simp only: eq)
  then have "filter (\<lambda>c. c = (100::nat)) b = []"
    using digits_no_d [OF assms(2,3)] digits_no_d [OF g' e'] by simp
  then have nod: "\<forall>c\<in>set b. c \<noteq> (100::nat)" by (simp add: filter_empty_conv)
  have "takeWhile (\<lambda>c. c \<noteq> (100::nat)) (b @ (ascii ''/documents/'') @ g @ e)
          = takeWhile (\<lambda>c. c \<noteq> (100::nat)) ((ascii ''/documents/'') @ g' @ e')"
    by (simp only: eq)
  then have "b @ (ascii ''/'') = (ascii ''/'')" using nod by (simp add: takeWhile_append2 ascii_def)
  then show False using assms(1) by simp
qed

lemma re_search_documents:
  assumes "ends_in_documents_line nd u g"
  shows "re_search (match_documents nd) u = Some g"
proof -
  from assms obtain p e where g: "g \<noteq> []" "\<forall>c\<in>set g. is_digit nd c" and e: "line_end e"
      and u: "u = p @ (ascii ''/documents/'') @ g @ e"
    unfolding ends_in_documents_line_def digits_def by blast
  have here: "match_documents nd ((ascii ''/documents/'') @ g @ e) = Some g"
    unfolding match_documents_iff using g e by blast
  have "re_search (match_documents nd) (p @ ((ascii ''/documents/'') @ g @ e)) = Some g"
  proof (rule re_search_leftmost [where m = "match_documents nd" and p = p
        and q = "(ascii ''/documents/'') @ g @ e" and g = g, OF here])
    fix a b assume "p = a @ b" "b \<noteq> []"
    then show "match_documents nd (b @ (ascii ''/documents/'') @ g @ e) = None
             \<or> match_documents nd (b @ (ascii ''/documents/'') @ g @ e) = Some g"
      using match_documents_not_inside [OF _ g(2) e] by blast
  qed
  then show ?thesis by (simp only: u)
qed

lemma re_search_documents_None:
  assumes "\<And>g. \<not> ends_in_documents_line nd u g"
  shows "re_search (match_documents nd) u = None"
proof (rule re_search_None)
  fix p q assume u: "u = p @ q"
  show "match_documents nd q = None"
  proof (rule ccontr)
    assume "match_documents nd q \<noteq> None"
    then obtain g where "match_documents nd q = Some g" by blast
    then obtain e where "q = (ascii ''/documents/'') @ g @ e" "g \<noteq> []" "\<forall>c\<in>set g. is_digit nd c" "line_end e"
      unfolding match_documents_iff by blast
    then have "ends_in_documents_line nd u g"
      unfolding ends_in_documents_line_def digits_def using u by blast
    then show False using assms by blast
  qed
qed

lemma prefix_of_longer:
  assumes "xs @ ys = zs @ ts" "length zs \<le> length xs"
  shows "\<exists>us. xs = zs @ us"
  using assms by (auto simp: append_eq_append_conv2)

lemma document_id_inside:
  assumes "b \<noteq> []" "match_document_id nd (b @ (ascii ''document_id='') @ r) = Some g"
  shows "has_document_id nd (b @ (ascii ''document_id=''))"
proof -
  from assms(2) obtain r' where eq: "b @ (ascii ''document_id='') @ r = (ascii ''document_id='') @ g @ r'"
      and g: "g \<noteq> []" "\<forall>c\<in>set g. is_digit nd c"
    unfolding match_document_id_iff by blast
  from g(1) obtain c g' where cg: "g = c # g'" by (cases g) auto
  have eq': "(b @ (ascii ''document_id='')) @ r = ((ascii ''document_id='') @ [c]) @ (g' @ r')"
    using eq cg by simp
  have len: "length ((ascii ''document_id='') @ [c]) \<le> length (b @ (ascii ''document_id=''))"
    using assms(1) by (cases b) auto
  from prefix_of_longer [OF eq' len] obtain us
    where "b @ (ascii ''document_id='') = ((ascii ''document_id='') @ [c]) @ us" by blast
  then have "b @ (ascii ''document_id='') = [] @ (ascii ''document_id='') @ c # us" by simp
  moreover have "is_digit nd c" using g(2) cg by simp
  ultimately show ?thesis unfolding has_document_id_def by blast
qed

lemma has_document_id_append: "has_document_id nd s \<Longrightarrow> has_document_id nd (a @ s)"
proof -
  assume "has_document_id nd s"
  then obtain x c y where "s = x @ (ascii ''document_id='') @ c # y" "is_digit nd c"
    unfolding has_document_id_def by blast
  then have "a @ s = (a @ x) @ (ascii ''document_id='') @ c # y \<and> is_digit nd c" by simp
  then show ?thesis unfolding has_document_id_def by blast
qed

lemma re_search_document_id:
  assumes "first_document_id nd u g"
  shows "re_search (match_document_id nd) u = Some g"
proof -
  from assms obtain p r where g: "g \<noteq> []" "\<forall>c\<in>set g. is_digit nd c"
      and r: "r = [] \<or> \<not> is_digit nd (hd r)"
      and u: "u = p @ (ascii ''document_id='') @ g @ r"
      and first: "\<not> has_document_id nd (p @ (ascii ''document_id=''))"
    unfolding first_document_id_def digits_def by blast
  have here: "match_document_id nd ((ascii ''document_id='') @ g @ r) = Some g"
    unfolding match_document_id_iff using g r by blast
  have "re_search (match_document_id nd) (p @ ((ascii ''document_id='') @ g @ r)) = Some g"
  proof (rule re_search_leftmost [where m = "match_document_id nd" and p = p
        and q = "(ascii ''document_id='') @ g @ r" and g = g, OF here])
    fix a b assume p: "p = a @ b" and b: "b \<noteq> []"
    have "match_document_id nd (b @ (ascii ''document_id='') @ g @ r) = None"
    proof (rule ccontr)
      assume "match_document_id nd (b @ (ascii ''document_id='') @ g @ r) \<noteq> None"
      then obtain g' where "match_document_id nd (b @ (ascii ''document_id='') @ (g @ r)) = Some g'" by auto
      from document_id_inside [OF b this] have "has_document_id nd (a @ (b @ (ascii ''document_id='')))"
        by (rule has_document_id_append)
      then show False using first p by simp
    qed
    then show "match_document_id nd (b @ (ascii ''document_id='') @ g @ r) = None
             \<or> match_document_id nd (b @ (ascii ''document_id='') @ g @ r) = Some g" ..
  qed
  then show ?thesis by (simp only: u)
qed

lemma re_search_document_id_None:
  assumes "\<not> has_document_id nd u"
  shows "re_search (match_document_id nd) u = None"
proof (rule re_search_None)
  fix p q assume u: "u = p @ q"
  show "match_document_id nd q = None"
  proof (rule ccontr)
    assume "match_document_id nd q \<noteq> None"
    then obtain g where "match_document_id nd q = Some g" by blast
    then obtain r where q: "q = (ascii ''document_id='') @ g @ r" and g: "g \<noteq> []" "\<forall>c\<in>set g. is_digit nd c"
      unfolding match_document_id_iff by blast
    from g(1) obtain c g' where cg: "g = c # g'" by (cases g) auto
    have "u = p @ (ascii ''document_id='') @ c # (g' @ r) \<and> is_digit nd c"
      using u q cg g(2) by simp
    then have "has_document_id nd u" unfolding has_document_id_def by blast
    then show False using assms by blast
  qed
qed

lemma re_search_exists: "m q \<noteq> None \<Longrightarrow> re_search m (p @ q) \<noteq> None"
proof (induction p)
  case Nil
  then show ?case by (cases q) auto
next
  case (Cons c p)
  then show ?case by (cases "m (c # p @ q)") auto
qed

lemma not_has_document_id:
  assumes "re_search (match_document_id nd) u = None"
  shows "\<not> has_document_id nd u"
proof
  assume "has_document_id nd u"
  then obtain a c b where u: "u = a @ ((ascii ''document_id='') @ c # b)" and c: "is_digit nd c"
    unfolding has_document_id_def by auto
  have "match_document_id nd ((ascii ''document_id='') @ c # b) \<noteq> None"
    using c by (simp add: match_document_id_def starts_with_def)
  from re_search_exists [where m = "match_document_id nd" and p = a
      and q = "(ascii ''document_id='') @ c # b", OF this]
  show False using assms u by simp
qed

lemma not_ends_in_documents_line:
  "re_search (match_documents nd) u = None \<Longrightarrow> \<not> ends_in_documents_line nd u g"
  using re_search_documents by fastforce

subsection \<open>The document identifier of a URL\<close>

lemma extract_fst:
  "fst (extract_document_id_from_url (JStr u) w) =
     (case re_search (match_documents (w_unicode_decimal w)) u of
        Some g \<Rightarrow> py_int (w_unicode_decimal w) (w_max_str_digits w) g
      | None \<Rightarrow>
          (case re_search (match_document_id (w_unicode_decimal w)) u of
             Some g \<Rightarrow> py_int (w_unicode_decimal w) (w_max_str_digits w) g
           | None \<Rightarrow> None))"
  by (simp add: extract_document_id_from_url_def split: option.splits)

lemma extract_frame [simp]:
  "w_documents (snd (extract_document_id_from_url v w)) = w_documents w"
  "w_users (snd (extract_document_id_from_url v w)) = w_users w"
  "w_tags (snd (extract_document_id_from_url v w)) = w_tags w"
  "w_next_tag_id (snd (extract_document_id_from_url v w)) = w_next_tag_id w"
  "w_page_size (snd (extract_document_id_from_url v w)) = w_page_size w"
  "w_net (snd (extract_document_id_from_url v w)) = w_net w"
  "w_requests (snd (extract_document_id_from_url v w)) = w_requests w"
  "w_max_str_digits (snd (extract_document_id_from_url v w)) = w_max_str_digits w"
  "w_unicode_decimal (snd (extract_document_id_from_url v w)) = w_unicode_decimal w"
  by (simp_all add: extract_document_id_from_url_def split: option.splits json.splits)

lemma ends_in_documents_imp_line: "ends_in_documents nd u g \<Longrightarrow> ends_in_documents_line nd u g"
proof -
  assume "ends_in_documents nd u g"
  then obtain p where g: "digits nd g"
      and u: "u = p @ ascii ''/documents/'' @ g @ [] \<or> u = p @ ascii ''/documents/'' @ g @ ascii ''/''"
    unfolding ends_in_documents_def by auto
  have "line_end []" "line_end (ascii ''/'')" by (simp_all add: line_end_def)
  with g u show ?thesis unfolding ends_in_documents_line_def by blast
qed

lemma ends_in_documents_last:
  assumes "ends_in_documents nd u g"
  shows "last u = 47 \<or> is_digit nd (last u)"
proof -
  from assms obtain p where g: "g \<noteq> []" "\<forall>c\<in>set g. is_digit nd c"
      and u: "u = (p @ ascii ''/documents/'') @ g \<or> u = (p @ ascii ''/documents/'' @ g) @ [47]"
    unfolding ends_in_documents_def digits_def by (auto simp: ascii_def)
  from u show ?thesis
  proof
    assume "u = (p @ ascii ''/documents/'') @ g"
    then have "last u = last g" using g(1) by (simp only: last_append if_False)
    then show ?thesis using g by auto
  next
    assume "u = (p @ ascii ''/documents/'' @ g) @ [47]"
    then have "last u = 47" by (simp only: last_snoc)
    then show ?thesis ..
  qed
qed

lemmas match_defs = match_documents_def match_document_id_def starts_with_def is_digit_def
  digit_value_def newline_def ascii_def

lemmas int_defs = py_int_def decimal_def digit_value_def str_digits_check_threshold_def
  ascii_def

text \<open>
  C7, as amended. A URL is any string of Unicode code points and a digit is any Unicode
  decimal digit, as for \<^verbatim>\<open>\d\<close> and \<^verbatim>\<open>int\<close>. For every URL \<open>u\<close> and every
  interpreter: if \<open>u\<close> ends in \<^verbatim>\<open>/documents/\<close>, digits \<open>g\<close>, an optional slash and an
  optional single final newline, the method returns \<open>int(g)\<close>; this covers every URL
  that ends in \<^verbatim>\<open>/documents/<digits>\<close> with an optional slash. Otherwise, if \<open>u\<close>
  contains \<^verbatim>\<open>document_id=\<close> followed by a digit, it returns \<open>int(g)\<close> for the digits
  \<open>g\<close> after the first such occurrence. Otherwise it returns \<open>None\<close>. \<open>int(g)\<close> is
  the decimal value of \<open>g\<close>, or \<open>None\<close> (the caught \<^verbatim>\<open>ValueError\<close>) when \<open>g\<close> is
  longer than 640 digits and than the interpreter's nonzero limit. The three examples
  of the specification hold.
\<close>

theorem extract_document_id_patterns:
  "(ends_in_documents (w_unicode_decimal w) u g \<longrightarrow>
      fst (extract_document_id_from_url (JStr u) w)
        = py_int (w_unicode_decimal w) (w_max_str_digits w) g)
 \<and> (ends_in_documents_line (w_unicode_decimal w) u g \<longrightarrow>
      fst (extract_document_id_from_url (JStr u) w)
        = py_int (w_unicode_decimal w) (w_max_str_digits w) g)
 \<and> ((\<forall>g'. \<not> ends_in_documents_line (w_unicode_decimal w) u g')
      \<and> first_document_id (w_unicode_decimal w) u g \<longrightarrow>
      fst (extract_document_id_from_url (JStr u) w)
        = py_int (w_unicode_decimal w) (w_max_str_digits w) g)
 \<and> ((\<forall>g'. \<not> ends_in_documents_line (w_unicode_decimal w) u g')
      \<and> \<not> has_document_id (w_unicode_decimal w) u \<longrightarrow>
      fst (extract_document_id_from_url (JStr u) w) = None)
 \<and> (length g \<le> 640 \<or> w_max_str_digits w = 0 \<or> length g \<le> w_max_str_digits w \<longrightarrow>
      py_int (w_unicode_decimal w) (w_max_str_digits w) g
        = Some (decimal (w_unicode_decimal w) g))
 \<and> (640 < length g \<and> 0 < w_max_str_digits w \<and> w_max_str_digits w < length g \<longrightarrow>
      py_int (w_unicode_decimal w) (w_max_str_digits w) g = None)
 \<and> fst (extract_document_id_from_url (JStr (ascii ''https://host/documents/55/'')) w) = Some 55
 \<and> fst (extract_document_id_from_url (JStr (ascii ''https://host/api?document_id=77'')) w)
     = Some 77
 \<and> fst (extract_document_id_from_url (JStr (ascii ''https://host/other'')) w) = None"
proof -
  define nd where "nd = w_unicode_decimal w"
  have a: "fst (extract_document_id_from_url (JStr u) w) = py_int nd (w_max_str_digits w) g"
    if "ends_in_documents_line nd u g"
    using re_search_documents [OF that] by (simp add: extract_fst nd_def)
  have b: "fst (extract_document_id_from_url (JStr u) w) = py_int nd (w_max_str_digits w) g"
    if "\<forall>g'. \<not> ends_in_documents_line nd u g'" "first_document_id nd u g"
    using re_search_documents_None [of nd u] re_search_document_id [OF that(2)] that(1)
    by (simp add: extract_fst nd_def)
  have c: "fst (extract_document_id_from_url (JStr u) w) = None"
    if "\<forall>g'. \<not> ends_in_documents_line nd u g'" "\<not> has_document_id nd u"
    using re_search_documents_None [of nd u] re_search_document_id_None [OF that(2)] that(1)
    by (simp add: extract_fst nd_def)
  have d: "py_int nd (w_max_str_digits w) g = Some (decimal nd g)"
    if "length g \<le> 640 \<or> w_max_str_digits w = 0 \<or> length g \<le> w_max_str_digits w"
    using that by (auto simp: py_int_def str_digits_check_threshold_def)
  have e: "py_int nd (w_max_str_digits w) g = None"
    if "640 < length g \<and> 0 < w_max_str_digits w \<and> w_max_str_digits w < length g"
    using that by (auto simp: py_int_def str_digits_check_threshold_def)
  have x1: "fst (extract_document_id_from_url (JStr (ascii ''https://host/documents/55/'')) w)
              = Some 55"
    by (simp add: extract_fst match_defs int_defs)
  have x2: "fst (extract_document_id_from_url (JStr (ascii ''https://host/api?document_id=77'')) w)
              = Some 77"
    by (simp add: extract_fst match_defs int_defs)
  have x3: "fst (extract_document_id_from_url (JStr (ascii ''https://host/other'')) w) = None"
    by (simp add: extract_fst match_defs int_defs)
  from a b c d e x1 x2 x3 ends_in_documents_imp_line [of nd u g] show ?thesis
    unfolding nd_def by blast
qed

theorem extract_document_id_patterns_witness:
  "ends_in_documents arabic_indic (ascii ''https://host/documents/55/'') (ascii ''55'')
   \<and> fst (extract_document_id_from_url (JStr (ascii ''https://host/documents/55/'')) jane_world)
       = py_int arabic_indic 4300 (ascii ''55'')
   \<and> first_document_id arabic_indic (ascii ''https://host/api?document_id=77'') (ascii ''77'')
   \<and> fst (extract_document_id_from_url (JStr (ascii ''https://host/api?document_id=77''))
            jane_world)
       = py_int arabic_indic 4300 (ascii ''77'')
   \<and> \<not> has_document_id arabic_indic (ascii ''https://host/other'')
   \<and> fst (extract_document_id_from_url (JStr (ascii ''https://host/other'')) jane_world) = None
   \<and> py_int arabic_indic 4300 (ascii ''55'') = Some 55
   \<and> ends_in_documents arabic_indic (ascii ''https://host/documents/'' @ [1637, 1637])
        [1637, 1637]
   \<and> fst (extract_document_id_from_url
            (JStr (ascii ''https://host/documents/'' @ [1637, 1637])) jane_world)
       = py_int arabic_indic 4300 [1637, 1637]
   \<and> py_int arabic_indic 4300 [1637, 1637] = Some 55"
proof -
  have d55: "digits arabic_indic (ascii ''55'')" and d77: "digits arabic_indic (ascii ''77'')"
    and dai: "digits arabic_indic [1637, 1637]"
    by (simp_all add: digits_def is_digit_def digit_value_def ascii_def arabic_indic_def)
  have "ascii ''https://host/documents/55/''
          = ascii ''https://host'' @ ascii ''/documents/'' @ ascii ''55'' @ ascii ''/''"
    by (simp add: ascii_def)
  with d55 have h1: "ends_in_documents arabic_indic (ascii ''https://host/documents/55/'')
                       (ascii ''55'')"
    unfolding ends_in_documents_def by blast
  have "ascii ''https://host/documents/'' @ [1637, 1637]
          = ascii ''https://host'' @ ascii ''/documents/'' @ [1637, 1637]"
    by (simp add: ascii_def)
  with dai have h4: "ends_in_documents arabic_indic
                       (ascii ''https://host/documents/'' @ [1637, 1637]) [1637, 1637]"
    unfolding ends_in_documents_def by blast
  have n1: "\<forall>g'. \<not> ends_in_documents_line arabic_indic
                     (ascii ''https://host/api?document_id=77'') g'"
    by (intro allI not_ends_in_documents_line) (simp add: match_defs arabic_indic_def)
  have n2: "\<forall>g'. \<not> ends_in_documents_line arabic_indic (ascii ''https://host/other'') g'"
    by (intro allI not_ends_in_documents_line) (simp add: match_defs arabic_indic_def)
  have n3: "\<not> has_document_id arabic_indic (ascii ''https://host/other'')"
    by (rule not_has_document_id) (simp add: match_defs arabic_indic_def)
  have n4: "\<not> has_document_id arabic_indic (ascii ''https://host/api?'' @ ascii ''document_id='')"
    by (rule not_has_document_id) (simp add: match_defs arabic_indic_def)
  have "ascii ''https://host/api?document_id=77''
          = ascii ''https://host/api?'' @ ascii ''document_id='' @ ascii ''77'' @ []"
    by (simp add: ascii_def)
  with d77 n4 have h2: "first_document_id arabic_indic
                          (ascii ''https://host/api?document_id=77'') (ascii ''77'')"
    unfolding first_document_id_def by blast
  have w: "w_max_str_digits jane_world = 4300" "w_unicode_decimal jane_world = arabic_indic"
    by (simp_all add: jane_world_def)
  have v: "py_int arabic_indic 4300 (ascii ''55'') = Some 55"
    by (simp add: int_defs)
  have v': "py_int arabic_indic 4300 [1637, 1637] = Some 55"
    by (simp add: int_defs arabic_indic_def)
  note t1 = extract_document_id_patterns
    [of jane_world "ascii ''https://host/documents/55/''" "ascii ''55''", unfolded w]
  note t2 = extract_document_id_patterns
    [of jane_world "ascii ''https://host/api?document_id=77''" "ascii ''77''", unfolded w]
  note t3 = extract_document_id_patterns
    [of jane_world "ascii ''https://host/other''" "ascii ''55''", unfolded w]
  note t4 = extract_document_id_patterns
    [of jane_world "ascii ''https://host/documents/'' @ [1637, 1637]" "[1637, 1637]",
     unfolded w]
  have c1: "fst (extract_document_id_from_url (JStr (ascii ''https://host/documents/55/''))
                  jane_world) = py_int arabic_indic 4300 (ascii ''55'')"
    using t1 h1 by blast
  have c2: "fst (extract_document_id_from_url (JStr (ascii ''https://host/api?document_id=77''))
                  jane_world) = py_int arabic_indic 4300 (ascii ''77'')"
    using t2 h2 n1 by blast
  have c3: "fst (extract_document_id_from_url (JStr (ascii ''https://host/other'')) jane_world)
              = None"
    using t3 n2 n3 by blast
  have c4: "fst (extract_document_id_from_url
                  (JStr (ascii ''https://host/documents/'' @ [1637, 1637])) jane_world)
              = py_int arabic_indic 4300 [1637, 1637]"
    using t4 h4 by blast
  from h1 c1 h2 c2 n3 c3 v h4 c4 v' show ?thesis by blast
qed

text \<open>
  C7 as stated fails: this URL does not end in \<^verbatim>\<open>/documents/<digits>\<close> with an optional
  slash (it ends in a newline) and contains no \<^verbatim>\<open>document_id=\<close>, yet the method
  returns 55 and not \<open>None\<close>, because \<^verbatim>\<open>$\<close> also matches before a final newline.
\<close>

theorem extract_trailing_newline_counterexample:
  "fst (extract_document_id_from_url
          (JStr (ascii ''https://host/documents/55'' @ [newline])) jane_world) = Some 55
   \<and> \<not> matches_documents_pattern (w_unicode_decimal jane_world)
         (ascii ''https://host/documents/55'' @ [newline])
   \<and> \<not> has_document_id (w_unicode_decimal jane_world)
         (ascii ''https://host/documents/55'' @ [newline])"
proof -
  have nd: "w_unicode_decimal jane_world = arabic_indic" by (simp add: jane_world_def)
  have "fst (extract_document_id_from_url
               (JStr (ascii ''https://host/documents/55'' @ [newline])) jane_world) = Some 55"
    by (simp add: extract_fst match_defs int_defs jane_world_def)
  moreover have "\<not> matches_documents_pattern arabic_indic
                     (ascii ''https://host/documents/55'' @ [newline])"
    unfolding matches_documents_pattern_def
    using ends_in_documents_last [of arabic_indic "ascii ''https://host/documents/55'' @ [newline]"]
    by (auto simp: is_digit_def digit_value_def newline_def)
  moreover have "\<not> has_document_id arabic_indic (ascii ''https://host/documents/55'' @ [newline])"
    by (rule not_has_document_id) (simp add: match_defs arabic_indic_def)
  ultimately show ?thesis unfolding nd by blast
qed

subsection \<open>The webhook and document 0\<close>

lemma extract_zero:
  "fst (extract_document_id_from_url (JStr (p @ ascii ''/documents/0/'')) w) = Some 0"
proof -
  have "digits (w_unicode_decimal w) (ascii ''0'')"
    by (simp add: digits_def is_digit_def digit_value_def ascii_def)
  moreover have "p @ ascii ''/documents/0/'' = p @ ascii ''/documents/'' @ ascii ''0'' @ ascii ''/''"
    by (simp add: ascii_def)
  moreover have "line_end (ascii ''/'')" by (simp add: line_end_def)
  ultimately have "ends_in_documents_line (w_unicode_decimal w) (p @ ascii ''/documents/0/'')
                     (ascii ''0'')"
    unfolding ends_in_documents_line_def by blast
  from re_search_documents [OF this] show ?thesis
    by (simp add: extract_fst int_defs)
qed

lemma webhook_falsy_id:
  assumes "map_of items (ascii ''url'') = Some v" "truthy v"
    "\<not> truthy_int (fst (extract_document_id_from_url v w))"
  shows "document_webhook self (Returns (JObj items)) w
           = ((JObj [(ascii ''error'', JStr (ascii ''Invalid document URL''))], 400),
              log ERROR ''Could not extract document ID from URL'' []
                (snd (extract_document_id_from_url v w)))"
proof -
  have "items \<noteq> []" using assms(1) by auto
  then show ?thesis using assms
    by (simp add: document_webhook_def case_prod_beta)
qed

text \<open>
  C10. A URL that ends in \<^verbatim>\<open>/documents/0/\<close> is extracted to the integer 0. The handler
  tests the identifier for truth, so for a payload with such a URL it answers 400 with
  \<open>Invalid document URL\<close> and sends no request to the platform: no synchronisation is
  attempted. The same holds whenever the extraction yields 0, so document 0 is never
  synchronised through the webhook.
\<close>

theorem webhook_document_zero_rejected:
  "fst (extract_document_id_from_url (JStr (p @ ascii ''/documents/0/'')) w) = Some 0
   \<and> (map_of items (ascii ''url'') = Some (JStr (p @ ascii ''/documents/0/'')) \<longrightarrow>
        fst (document_webhook self (Returns (JObj items)) w)
          = (JObj [(ascii ''error'', JStr (ascii ''Invalid document URL''))], 400)
      \<and> w_requests (snd (document_webhook self (Returns (JObj items)) w)) = w_requests w
      \<and> w_documents (snd (document_webhook self (Returns (JObj items)) w)) = w_documents w
      \<and> w_tags (snd (document_webhook self (Returns (JObj items)) w)) = w_tags w)
   \<and> (map_of items (ascii ''url'') = Some v \<and> fst (extract_document_id_from_url v w) = Some 0 \<longrightarrow>
        fst (document_webhook self (Returns (JObj items)) w)
          = (JObj [(ascii ''error'', JStr (ascii ''Invalid document URL''))], 400)
      \<and> w_requests (snd (document_webhook self (Returns (JObj items)) w)) = w_requests w)"
proof -
  let ?u = "JStr (p @ ascii ''/documents/0/'')"
  have z: "fst (extract_document_id_from_url ?u w) = Some 0" by (rule extract_zero)
  have specific: "fst (document_webhook self (Returns (JObj items)) w)
          = (JObj [(ascii ''error'', JStr (ascii ''Invalid document URL''))], 400)
      \<and> w_requests (snd (document_webhook self (Returns (JObj items)) w)) = w_requests w
      \<and> w_documents (snd (document_webhook self (Returns (JObj items)) w)) = w_documents w
      \<and> w_tags (snd (document_webhook self (Returns (JObj items)) w)) = w_tags w"
    if "map_of items (ascii ''url'') = Some ?u"
  proof -
    have "truthy ?u" by (simp add: ascii_def)
    moreover have "\<not> truthy_int (fst (extract_document_id_from_url ?u w))"
      by (simp add: z truthy_int_def)
    ultimately show ?thesis using webhook_falsy_id [OF that] by simp
  qed
  have general: "fst (document_webhook self (Returns (JObj items)) w)
          = (JObj [(ascii ''error'', JStr (ascii ''Invalid document URL''))], 400)
      \<and> w_requests (snd (document_webhook self (Returns (JObj items)) w)) = w_requests w"
    if m: "map_of items (ascii ''url'') = Some v"
      and e: "fst (extract_document_id_from_url v w) = Some 0"
  proof (cases "truthy v")
    case True
    have "\<not> truthy_int (fst (extract_document_id_from_url v w))"
      by (simp add: e truthy_int_def)
    from webhook_falsy_id [OF m True this] show ?thesis by simp
  next
    case False
    have "fst (extract_document_id_from_url v w) = None"
      using False by (cases v) (simp_all add: extract_document_id_from_url_def extract_fst match_defs)
    with e show ?thesis by simp
  qed
  from z specific general show ?thesis by blast
qed

theorem webhook_document_zero_rejected_witness:
  "fst (extract_document_id_from_url (JStr (ascii ''https://host/documents/0/'')) jane_world)
     = Some 0
   \<and> fst (document_webhook jane_sync
            (Returns (JObj [(ascii ''url'', JStr (ascii ''https://host/documents/0/''))]))
            jane_world)
       = (JObj [(ascii ''error'', JStr (ascii ''Invalid document URL''))], 400)
   \<and> w_requests (snd (document_webhook jane_sync
            (Returns (JObj [(ascii ''url'', JStr (ascii ''https://host/documents/0/''))]))
            jane_world)) = []"
proof -
  have r: "w_requests jane_world = []" by (simp add: jane_world_def)
  have m: "map_of [(ascii ''url'', JStr (ascii ''https://host'' @ ascii ''/documents/0/''))]
             (ascii ''url'')
             = Some (JStr (ascii ''https://host'' @ ascii ''/documents/0/''))" by simp
  note t = webhook_document_zero_rejected [of "ascii ''https://host''" jane_world
      "[(ascii ''url'', JStr (ascii ''https://host'' @ ascii ''/documents/0/''))]" jane_sync
      "JStr (ascii ''https://host'' @ ascii ''/documents/0/'')"]
  have e: "ascii ''https://host'' @ ascii ''/documents/0/'' = ascii ''https://host/documents/0/''"
    by (simp add: ascii_def)
  from t m have "fst (extract_document_id_from_url
                        (JStr (ascii ''https://host'' @ ascii ''/documents/0/'')) jane_world)
                   = Some 0
   \<and> fst (document_webhook jane_sync
            (Returns (JObj [(ascii ''url'',
                             JStr (ascii ''https://host'' @ ascii ''/documents/0/''))]))
            jane_world)
       = (JObj [(ascii ''error'', JStr (ascii ''Invalid document URL''))], 400)
   \<and> w_requests (snd (document_webhook jane_sync
            (Returns (JObj [(ascii ''url'',
                             JStr (ascii ''https://host'' @ ascii ''/documents/0/''))]))
            jane_world)) = w_requests jane_world"
    by blast
  then show ?thesis unfolding e r .
qed

subsection \<open>Responses of the webhook\<close>


lemmas sync_defs = sync_document_owner_tag_def ensure_owner_tag_def get_owner_tag_name_def
  truthy_int_def case_prod_beta Let_def dict_of_def PaperlessSync_init_def



subsection \<open>Fetching all documents\<close>

lemma concat_pages_of: "concat (pages_of k xs) = xs"
proof (induction k xs rule: pages_of.induct)
  case (1 k xs)
  show ?case
  proof (cases "k = 0 \<or> length xs \<le> k")
    case True
    then show ?thesis by (simp add: pages_of.simps [of k xs])
  next
    case False
    with 1 show ?thesis by (simp add: pages_of.simps [of k xs])
  qed
qed

lemma pages_of_nonempty: "pages_of k xs \<noteq> []"
  by (simp add: pages_of.simps [of k xs])

lemma fetch_pages_frame [simp]:
  "w_documents (snd (fetch_pages ps k acc w)) = w_documents w"
  "w_users (snd (fetch_pages ps k acc w)) = w_users w"
  "w_tags (snd (fetch_pages ps k acc w)) = w_tags w"
  "w_next_tag_id (snd (fetch_pages ps k acc w)) = w_next_tag_id w"
  "w_page_size (snd (fetch_pages ps k acc w)) = w_page_size w"
  "w_net (snd (fetch_pages ps k acc w)) = w_net w"
  "w_max_str_digits (snd (fetch_pages ps k acc w)) = w_max_str_digits w"
  "w_log (snd (fetch_pages ps k acc w)) = w_log w"
  by (induction ps arbitrary: k acc w; simp add: case_prod_beta split: bool.splits)+

lemma fetch_pages_requests:
  "w_requests (snd (fetch_pages ps k acc w))
     = w_requests w
       @ map GET_documents [k ..< k + pages_sent (w_net w) (length (w_requests w)) (length ps)]"
proof (induction ps arbitrary: k acc w)
  case Nil
  show ?case by simp
next
  case (Cons p ps)
  show ?case
  proof (cases "w_net w (length (w_requests w))")
    case True
    have "[k ..< Suc (k + pages_sent (w_net w) (Suc (length (w_requests w))) (length ps))]
            = k # [Suc k ..< Suc k + pages_sent (w_net w) (Suc (length (w_requests w))) (length ps)]"
      by (simp add: upt_conv_Cons)
    with True show ?thesis by (simp add: case_prod_beta Cons.IH)
  next
    case False
    then show ?thesis by (simp add: case_prod_beta)
  qed
qed

lemma fetch_pages_result:
  "fst (fetch_pages ps k acc w)
     = (if \<forall>j < length ps. w_net w (length (w_requests w) + j)
        then Some (acc @ concat ps) else None)"
proof (induction ps arbitrary: k acc w)
  case Nil
  show ?case by simp
next
  case (Cons p ps)
  show ?case
  proof (cases "w_net w (length (w_requests w))")
    case True
    have "(\<forall>j < Suc (length ps). w_net w (length (w_requests w) + j))
            \<longleftrightarrow> (\<forall>j < length ps. w_net w (Suc (length (w_requests w) + j)))"
      using True by (auto simp: less_Suc_eq_0_disj)
    with True show ?thesis by (simp add: case_prod_beta Cons.IH)
  next
    case False
    then have "\<not> (\<forall>j < Suc (length ps). w_net w (length (w_requests w) + j))"
      by (metis add_0_right zero_less_Suc)
    with False show ?thesis by (simp add: case_prod_beta)
  qed
qed

lemma get_all_documents_result [simp]:
  "fst (get_all_documents w) = (if documents_fetched w then w_documents w else [])"
proof -
  let ?ps = "pages_of (w_page_size w) (w_documents w)"
  have "fst (fetch_pages ?ps 0 [] w) = (if documents_fetched w then Some (w_documents w) else None)"
    unfolding fetch_pages_result documents_fetched_def by (simp add: concat_pages_of)
  then show ?thesis
    by (simp add: get_all_documents_def case_prod_beta split: option.splits)
qed

lemma get_all_documents_frame [simp]:
  "w_documents (snd (get_all_documents w)) = w_documents w"
  "w_users (snd (get_all_documents w)) = w_users w"
  "w_tags (snd (get_all_documents w)) = w_tags w"
  "w_next_tag_id (snd (get_all_documents w)) = w_next_tag_id w"
  "w_page_size (snd (get_all_documents w)) = w_page_size w"
  "w_net (snd (get_all_documents w)) = w_net w"
  "w_max_str_digits (snd (get_all_documents w)) = w_max_str_digits w"
  "w_requests (snd (get_all_documents w))
     = w_requests w
       @ map GET_documents
           [0 ..< pages_sent (w_net w) (length (w_requests w))
                    (length (pages_of (w_page_size w) (w_documents w)))]"
  by (simp_all add: get_all_documents_def case_prod_beta fetch_pages_requests
      split: option.splits)

subsection \<open>The counters of the full synchronisation\<close>

lemma full_sync_step_stats:
  "total (fst (snd (full_sync_step self users doc tags st w))) = total st"
  "processed (fst (snd (full_sync_step self users doc tags st w))) = processed st + 1"
  by (simp_all add: full_sync_step_def Let_def case_prod_beta split: option.splits bool.splits)

lemma full_sync_loop_stats:
  "total (fst (snd (full_sync_loop self users docs tags st w))) = total st"
  "processed (fst (snd (full_sync_loop self users docs tags st w))) = processed st + length docs"
  by (induction docs arbitrary: tags st w; simp add: case_prod_beta full_sync_step_stats)+








lemma documents_fetched_log [simp]: "documents_fetched (log lv m a w) = documents_fetched w"
  by (simp add: documents_fetched_def)

lemma full_sync_aborted:
  assumes "\<not> documents_fetched w \<or> w_documents w = []"
  shows "full_sync self w
           = (\<lparr>total = 0, processed = 0, succeeded = 0, failed = 0\<rparr>,
              log ERROR ''No documents found or failed to fetch documents'' []
                (snd (get_tags (snd (get_users (snd (get_all_documents
                   (log INFO ''Starting full sync of all documents'' [] w))))))))"
  using assms by (auto simp: full_sync_def case_prod_beta)

lemma full_sync_runs:
  assumes "documents_fetched w" "w_documents w \<noteq> []"
  shows "fst (full_sync self w)
           = fst (snd (full_sync_loop self
                (fst (get_users (snd (get_all_documents
                   (log INFO ''Starting full sync of all documents'' [] w)))))
                (w_documents w)
                (fst (get_tags (snd (get_users (snd (get_all_documents
                   (log INFO ''Starting full sync of all documents'' [] w)))))))
                \<lparr>total = length (w_documents w), processed = 0, succeeded = 0, failed = 0\<rparr>
                (log INFO ''Found documents to process'' [I (int (length (w_documents w)))]
                   (snd (get_tags (snd (get_users (snd (get_all_documents
                      (log INFO ''Starting full sync of all documents'' [] w))))))))))"
  using assms by (simp add: full_sync_def case_prod_beta Let_def)



lemmas full_sync_defs = full_sync_def full_sync_step_def ensure_owner_tag_def
  get_owner_tag_name_def truthy_int_def case_prod_beta Let_def dict_of_def
  PaperlessSync_init_def documents_fetched_def pages_of.simps




subsection \<open>When the full synchronisation is given up\<close>

text \<open>
  C6, as amended. The result of \<open>full_sync\<close> is the zero result exactly when the fetch
  of the documents fails or the platform has no document. In that case the method ends
  before it looks at any document: it has sent the page requests, the request for the
  users and the request for the tags and nothing else, and documents and tags are
  unchanged. A failed fetch of the users or of the tags does not end the run.
\<close>

theorem full_sync_zero_result_iff:
  "(fst (full_sync self w) = \<lparr>total = 0, processed = 0, succeeded = 0, failed = 0\<rparr>
      \<longleftrightarrow> \<not> documents_fetched w \<or> w_documents w = [])
   \<and> (\<not> documents_fetched w \<or> w_documents w = [] \<longrightarrow>
        w_documents (snd (full_sync self w)) = w_documents w
      \<and> w_tags (snd (full_sync self w)) = w_tags w
      \<and> w_requests (snd (full_sync self w))
          = w_requests w
            @ map GET_documents
                [0 ..< pages_sent (w_net w) (length (w_requests w))
                         (length (pages_of (w_page_size w) (w_documents w)))]
            @ [GET_users, GET_tags])"
proof -
  have zero: "fst (full_sync self w) = \<lparr>total = 0, processed = 0, succeeded = 0, failed = 0\<rparr>"
    and frame: "w_documents (snd (full_sync self w)) = w_documents w
      \<and> w_tags (snd (full_sync self w)) = w_tags w
      \<and> w_requests (snd (full_sync self w))
          = w_requests w
            @ map GET_documents
                [0 ..< pages_sent (w_net w) (length (w_requests w))
                         (length (pages_of (w_page_size w) (w_documents w)))]
            @ [GET_users, GET_tags]"
    if "\<not> documents_fetched w \<or> w_documents w = []"
    using full_sync_aborted [OF that] by simp_all
  have nonzero: "fst (full_sync self w) \<noteq> \<lparr>total = 0, processed = 0, succeeded = 0, failed = 0\<rparr>"
    if "documents_fetched w" "w_documents w \<noteq> []"
  proof -
    have "total (fst (full_sync self w)) = length (w_documents w)"
      using that
      by (simp add: full_sync_runs full_sync_loop_stats)
    then have "total (fst (full_sync self w)) \<noteq> 0" using that(2) by simp
    then show ?thesis by auto
  qed
  from zero frame nonzero show ?thesis by blast
qed

theorem full_sync_zero_result_iff_witness:
  "\<not> documents_fetched (jane_world\<lparr>w_net := (\<lambda>k. k \<noteq> 0)\<rparr>)
   \<and> fst (full_sync jane_sync (jane_world\<lparr>w_net := (\<lambda>k. k \<noteq> 0)\<rparr>))
       = \<lparr>total = 0, processed = 0, succeeded = 0, failed = 0\<rparr>
   \<and> w_requests (snd (full_sync jane_sync (jane_world\<lparr>w_net := (\<lambda>k. k \<noteq> 0)\<rparr>)))
       = [GET_documents 0, GET_users, GET_tags]
   \<and> map d_tags (w_documents (snd (full_sync jane_sync (jane_world\<lparr>w_net := (\<lambda>k. k \<noteq> 0)\<rparr>))))
       = [[7]]"
proof -
  let ?w = "jane_world\<lparr>w_net := (\<lambda>k. k \<noteq> 0)\<rparr>"
  have f: "\<not> documents_fetched ?w"
    by (simp add: documents_fetched_def jane_world_def pages_of.simps)
  have e: "w_requests ?w
            @ map GET_documents
                [0 ..< pages_sent (w_net ?w) (length (w_requests ?w))
                         (length (pages_of (w_page_size ?w) (w_documents ?w)))]
            @ [GET_users, GET_tags] = [GET_documents 0, GET_users, GET_tags]"
    by (simp add: jane_world_def pages_of.simps)
  have d: "map d_tags (w_documents ?w) = [[7]]" by (simp add: jane_world_def)
  from full_sync_zero_result_iff [of jane_sync ?w] f
  have "fst (full_sync jane_sync ?w) = \<lparr>total = 0, processed = 0, succeeded = 0, failed = 0\<rparr>
      \<and> w_documents (snd (full_sync jane_sync ?w)) = w_documents ?w
      \<and> w_requests (snd (full_sync jane_sync ?w))
          = w_requests ?w
            @ map GET_documents
                [0 ..< pages_sent (w_net ?w) (length (w_requests ?w))
                         (length (pages_of (w_page_size ?w) (w_documents ?w)))]
            @ [GET_users, GET_tags]"
    by blast
  then have "fst (full_sync jane_sync ?w) = \<lparr>total = 0, processed = 0, succeeded = 0, failed = 0\<rparr>
      \<and> map d_tags (w_documents (snd (full_sync jane_sync ?w))) = [[7]]
      \<and> w_requests (snd (full_sync jane_sync ?w)) = [GET_documents 0, GET_users, GET_tags]"
    unfolding e using d by metis
  with f show ?thesis by blast
qed

text \<open>
  C6 as stated fails when the fetch of the users, or of the tags, fails while the
  documents are fetched: the run goes on and the result is not the zero result.
\<close>

theorem full_sync_users_fetch_counterexample:
  "\<not> w_net (jane_world\<lparr>w_net := (\<lambda>k. k \<noteq> 1)\<rparr>) 1
   \<and> w_requests (snd (full_sync jane_sync (jane_world\<lparr>w_net := (\<lambda>k. k \<noteq> 1)\<rparr>)))
       = [GET_documents 0, GET_users, GET_tags]
   \<and> fst (full_sync jane_sync (jane_world\<lparr>w_net := (\<lambda>k. k \<noteq> 1)\<rparr>))
       = \<lparr>total = 1, processed = 1, succeeded = 0, failed = 0\<rparr>
   \<and> \<not> w_net (jane_world\<lparr>w_net := (\<lambda>k. k \<noteq> 2)\<rparr>) 2
   \<and> w_requests (snd (full_sync jane_sync (jane_world\<lparr>w_net := (\<lambda>k. k \<noteq> 2)\<rparr>)))
       = [GET_documents 0, GET_users, GET_tags]
   \<and> fst (full_sync jane_sync (jane_world\<lparr>w_net := (\<lambda>k. k \<noteq> 2)\<rparr>))
       = \<lparr>total = 1, processed = 1, succeeded = 0, failed = 1\<rparr>"
  by (simp add: jane_world_def jane_sync_def full_sync_defs)

subsection \<open>Synchronising one document refines the reconciliation of the specification\<close>

lemma create_tag_next_id [simp]:
  "w_next_tag_id (snd (create_tag n c w)) =
     (if w_net w (length (w_requests w)) \<and> n \<notin> fst ` set (w_tags w)
      then w_next_tag_id w + 1 else w_next_tag_id w)"
  by (simp add: create_tag_def case_prod_beta Let_def)

lemma ensure_owner_tag_frame [simp]:
  "fst (ensure_owner_tag self u n (log lv m a) tags w) =
     (if n \<in> dom tags then Some tags
      else if u \<in> dom (owner_tag_mapping self) then None
      else if truthy_int (fst (create_tag n default_color w))
           then Some (tags(n \<mapsto> the (fst (create_tag n default_color w))))
           else None)"
  "w_documents (snd (ensure_owner_tag self u n (log lv m a) tags w)) = w_documents w"
  "w_users (snd (ensure_owner_tag self u n (log lv m a) tags w)) = w_users w"
  "w_tags (snd (ensure_owner_tag self u n (log lv m a) tags w)) =
     (if n \<in> dom tags \<or> u \<in> dom (owner_tag_mapping self) then w_tags w
      else w_tags (snd (create_tag n default_color w)))"
  "w_next_tag_id (snd (ensure_owner_tag self u n (log lv m a) tags w)) =
     (if n \<in> dom tags \<or> u \<in> dom (owner_tag_mapping self) then w_next_tag_id w
      else w_next_tag_id (snd (create_tag n default_color w)))"
  "w_page_size (snd (ensure_owner_tag self u n (log lv m a) tags w)) = w_page_size w"
  "w_net (snd (ensure_owner_tag self u n (log lv m a) tags w)) = w_net w"
  "w_max_str_digits (snd (ensure_owner_tag self u n (log lv m a) tags w)) = w_max_str_digits w"
  "w_requests (snd (ensure_owner_tag self u n (log lv m a) tags w)) =
     (if n \<in> dom tags \<or> u \<in> dom (owner_tag_mapping self) then w_requests w
      else w_requests w @ [POST_tag n default_color])"
  by (simp_all add: ensure_owner_tag_def case_prod_beta)

lemma find_id:
  assumes "find (\<lambda>d. d_id d = i) ds = Some doc"
  shows "d_id doc = i" "doc \<in> set ds" "i \<in> d_id ` set ds"
proof -
  from assms show "d_id doc = i" "doc \<in> set ds"
    by (auto simp: find_Some_iff)
  then show "i \<in> d_id ` set ds" by blast
qed

lemma find_map_same_id:
  assumes "\<And>d. d_id (f d) = d_id d"
  shows "find (\<lambda>d. d_id d = i) (map f ds) = map_option f (find (\<lambda>d. d_id d = i) ds)"
  by (induction ds) (simp_all add: assms)

lemma sync_refines_reconcile:
  assumes net: "\<forall>k. w_net w k" and next_id: "0 < w_next_tag_id w"
  shows "fst (sync_document_owner_tag self i w) = fst (reconcile self i (platform_of w))"
    and "platform_of (snd (sync_document_owner_tag self i w))
           = snd (reconcile self i (platform_of w))"
proof -
  have both: "fst (sync_document_owner_tag self i w) = fst (reconcile self i (platform_of w))
    \<and> platform_of (snd (sync_document_owner_tag self i w))
           = snd (reconcile self i (platform_of w))"
  proof (cases "find (\<lambda>d. d_id d = i) (w_documents w)")
    case None
    then show ?thesis using net
      by (simp add: sync_document_owner_tag_def reconcile_def platform_of_def case_prod_beta)
  next
    case (Some doc)
    note ids = find_id [OF Some]
    show ?thesis
    proof (cases "\<not> truthy_int (d_owner doc) \<or> the (d_owner doc) \<notin> dom (dict_of (w_users w))")
      case True
      then show ?thesis using net Some
        by (auto simp: sync_document_owner_tag_def reconcile_def platform_of_def case_prod_beta
            Let_def truthy_int_def domIff split: option.splits)
    next
      case False
      then obtain oid username where o: "d_owner doc = Some oid" "oid \<noteq> 0"
          "dict_of (w_users w) oid = Some username"
        by (auto simp: truthy_int_def split: option.splits)
      let ?n = "get_owner_tag_name self username"
      show ?thesis
      proof (cases "dict_of (w_tags w) ?n")
        case (Some t)
        then show ?thesis using net \<open>find (\<lambda>d. d_id d = i) (w_documents w) = Some doc\<close> o ids
          by (simp add: sync_document_owner_tag_def reconcile_def platform_of_def case_prod_beta
              Let_def truthy_int_def domIff attach_def)
      next
        case None
        then have fresh: "?n \<notin> fst ` set (w_tags w)"
          using dom_dict_of [of "w_tags w"] by (auto simp: domIff)
        show ?thesis
          using None fresh net next_id \<open>find (\<lambda>d. d_id d = i) (w_documents w) = Some doc\<close> o ids
          by (simp add: sync_document_owner_tag_def reconcile_def platform_of_def case_prod_beta
              Let_def truthy_int_def domIff attach_def)
      qed
    qed
  qed
  from both show "fst (sync_document_owner_tag self i w) = fst (reconcile self i (platform_of w))"
    and "platform_of (snd (sync_document_owner_tag self i w))
           = snd (reconcile self i (platform_of w))"
    by blast+
qed

lemma sync_static [simp]:
  "w_net (snd (sync_document_owner_tag self i w)) = w_net w"
  "w_users (snd (sync_document_owner_tag self i w)) = w_users w"
  by (simp_all add: sync_document_owner_tag_def case_prod_beta Let_def
      split: option.splits bool.splits)

lemma attach_idem:
  assumes "find (\<lambda>d. d_id d = i) (p_documents p) = Some doc"
  shows "find (\<lambda>d. d_id d = i) (p_documents (snd (attach i doc t p))) \<noteq> None
       \<and> t \<in> set (d_tags (the (find (\<lambda>d. d_id d = i) (p_documents (snd (attach i doc t p))))))
       \<and> d_owner (the (find (\<lambda>d. d_id d = i) (p_documents (snd (attach i doc t p)))))
           = d_owner doc
       \<and> p_users (snd (attach i doc t p)) = p_users p
       \<and> p_tags (snd (attach i doc t p)) = p_tags p
       \<and> p_next_tag_id (snd (attach i doc t p)) = p_next_tag_id p
       \<and> fst (attach i doc t p)"
proof (cases "t \<in> set (d_tags doc)")
  case True
  then show ?thesis using assms by (simp add: attach_def)
next
  case False
  let ?f = "\<lambda>d. if d_id d = i then d\<lparr>d_tags := d_tags doc @ [t]\<rparr> else d"
  have "find (\<lambda>d. d_id d = i) (map ?f (p_documents p)) = map_option ?f (Some doc)"
    using find_map_same_id [of ?f i "p_documents p"] assms by simp
  then have "find (\<lambda>d. d_id d = i) (map ?f (p_documents p)) = Some (doc\<lparr>d_tags := d_tags doc @ [t]\<rparr>)"
    using find_id(1) [OF assms] by simp
  with False show ?thesis by (simp add: attach_def)
qed

lemma attach_again:
  assumes "t \<in> set (d_tags doc)"
  shows "attach i doc t p = (True, p)"
  using assms by (simp add: attach_def)

lemma reconcile_idem:
  "snd (reconcile self i (snd (reconcile self i p))) = snd (reconcile self i p)
   \<and> fst (reconcile self i (snd (reconcile self i p))) = fst (reconcile self i p)"
proof (cases "find (\<lambda>d. d_id d = i) (p_documents p)")
  case None
  then show ?thesis by (simp add: reconcile_def)
next
  case (Some doc)
  show ?thesis
  proof (cases "\<exists>oid username. d_owner doc = Some oid \<and> oid \<noteq> 0
                  \<and> dict_of (p_users p) oid = Some username")
    case False
    then show ?thesis using Some
      by (auto simp: reconcile_def split: option.splits)
  next
    case True
    then obtain oid username where o: "d_owner doc = Some oid" "oid \<noteq> 0"
        "dict_of (p_users p) oid = Some username"
      by blast
    let ?n = "get_owner_tag_name self username"
    show ?thesis
    proof (cases "dict_of (p_tags p) ?n")
      case (Some t)
      have r: "reconcile self i p = attach i doc t p"
        using \<open>find (\<lambda>d. d_id d = i) (p_documents p) = Some doc\<close> o Some
        by (simp add: reconcile_def)
      note a = attach_idem [OF \<open>find (\<lambda>d. d_id d = i) (p_documents p) = Some doc\<close>, of t]
      let ?p' = "snd (attach i doc t p)"
      from a obtain doc' where d': "find (\<lambda>d. d_id d = i) (p_documents ?p') = Some doc'"
          "t \<in> set (d_tags doc')" "d_owner doc' = d_owner doc"
        by auto
      have "reconcile self i ?p' = attach i doc' t ?p'"
        using d' o Some a by (simp add: reconcile_def)
      also have "\<dots> = (True, ?p')" using d'(2) by (rule attach_again)
      finally show ?thesis using r a by simp
    next
      case None
      show ?thesis
      proof (cases "username \<in> dom (owner_tag_mapping self)")
        case True
        then show ?thesis
          using \<open>find (\<lambda>d. d_id d = i) (p_documents p) = Some doc\<close> o None
          by (simp add: reconcile_def)
      next
        case False
        let ?t = "p_next_tag_id p"
        let ?p1 = "p\<lparr>p_tags := p_tags p @ [(?n, ?t)], p_next_tag_id := ?t + 1\<rparr>"
        have r: "reconcile self i p = attach i doc ?t ?p1"
          using \<open>find (\<lambda>d. d_id d = i) (p_documents p) = Some doc\<close> o None False
          by (simp add: reconcile_def)
        have f1: "find (\<lambda>d. d_id d = i) (p_documents ?p1) = Some doc"
          using \<open>find (\<lambda>d. d_id d = i) (p_documents p) = Some doc\<close> by simp
        note a = attach_idem [OF f1, of ?t]
        let ?p' = "snd (attach i doc ?t ?p1)"
        from a obtain doc' where d': "find (\<lambda>d. d_id d = i) (p_documents ?p') = Some doc'"
            "?t \<in> set (d_tags doc')" "d_owner doc' = d_owner doc"
          by auto
        have tg: "dict_of (p_tags ?p') ?n = Some ?t" using a by (simp add: dict_of_snoc)
        have "reconcile self i ?p' = attach i doc' ?t ?p'"
          using d' o tg a by (simp add: reconcile_def)
        also have "\<dots> = (True, ?p')" using d'(2) by (rule attach_again)
        finally show ?thesis using r a by simp
      qed
    qed
  qed
qed

lemma reconcile_next_id:
  "0 < p_next_tag_id p \<Longrightarrow> 0 < p_next_tag_id (snd (reconcile self i p))"
  by (auto simp: reconcile_def attach_def split: option.splits)

subsection \<open>What one document's turn changes\<close>

lemma create_tag_fresh:
  assumes "fst (create_tag n c w) = Some t"
  shows "n \<notin> dom (dict_of (w_tags w))" "w_tags (snd (create_tag n c w)) = w_tags w @ [(n, t)]"
    "dict_of (w_tags (snd (create_tag n c w))) = (dict_of (w_tags w))(n \<mapsto> t)"
proof -
  from assms have ok: "w_net w (length (w_requests w)) \<and> n \<notin> fst ` set (w_tags w)"
      and t: "t = w_next_tag_id w"
    by (auto split: if_splits)
  from ok show "n \<notin> dom (dict_of (w_tags w))" by (simp add: dom_dict_of)
  from ok t show "w_tags (snd (create_tag n c w)) = w_tags w @ [(n, t)]" by simp
  then show "dict_of (w_tags (snd (create_tag n c w))) = (dict_of (w_tags w))(n \<mapsto> t)"
    by (simp add: dict_of_snoc)
qed

lemma create_tag_failed:
  assumes "fst (create_tag n c w) = None"
  shows "w_tags (snd (create_tag n c w)) = w_tags w"
  using assms by (auto split: if_splits)

lemma ensure_owner_tag_effect:
  assumes inv: "tags \<subseteq>\<^sub>m dict_of (w_tags w)"
  shows "dict_of (w_tags w) \<subseteq>\<^sub>m dict_of (w_tags (snd (ensure_owner_tag self u n (log lv m a) tags w)))"
    and "tags \<subseteq>\<^sub>m dict_of (w_tags (snd (ensure_owner_tag self u n (log lv m a) tags w)))"
    and "fst (ensure_owner_tag self u n (log lv m a) tags w) = Some tags' \<Longrightarrow>
           tags \<subseteq>\<^sub>m tags' \<and> n \<in> dom tags'
           \<and> tags' \<subseteq>\<^sub>m dict_of (w_tags (snd (ensure_owner_tag self u n (log lv m a) tags w)))"
proof -
  let ?e = "ensure_owner_tag self u n (log lv m a) tags w"
  let ?c = "create_tag n default_color w"
  have mono: "dict_of (w_tags w) \<subseteq>\<^sub>m dict_of (w_tags (snd ?c))"
  proof (cases "fst ?c")
    case None
    from create_tag_failed [OF None] show ?thesis by (simp only: map_le_refl)
  next
    case (Some t)
    note f = create_tag_fresh [OF this]
    have "dict_of (w_tags w) \<subseteq>\<^sub>m (dict_of (w_tags w))(n \<mapsto> t)"
      using f(1) by (auto simp: map_le_def)
    then show ?thesis by (simp only: f(3))
  qed
  then show m1: "dict_of (w_tags w) \<subseteq>\<^sub>m dict_of (w_tags (snd ?e))" by simp
  with inv show "tags \<subseteq>\<^sub>m dict_of (w_tags (snd ?e))" by (rule map_le_trans)
  show "tags \<subseteq>\<^sub>m tags' \<and> n \<in> dom tags' \<and> tags' \<subseteq>\<^sub>m dict_of (w_tags (snd ?e))"
    if s: "fst ?e = Some tags'"
  proof (cases "n \<in> dom tags")
    case True
    with s inv show ?thesis by simp
  next
    case False
    with s have um: "u \<notin> dom (owner_tag_mapping self)" and tr: "truthy_int (fst ?c)"
        and t': "tags' = tags(n \<mapsto> the (fst ?c))"
      by (auto split: if_splits)
    from tr obtain t where t: "fst ?c = Some t" by (auto simp: truthy_int_def split: option.splits)
    note f = create_tag_fresh [OF t]
    have "tags \<subseteq>\<^sub>m tags'" using False t' by (auto simp: map_le_def)
    moreover have "n \<in> dom tags'" using t' by simp
    moreover have "tags' \<subseteq>\<^sub>m dict_of (w_tags (snd ?e))"
    proof -
      have "w_tags (snd ?e) = w_tags (snd ?c)" using False um by simp
      then have "dict_of (w_tags (snd ?e)) = (dict_of (w_tags w))(n \<mapsto> t)"
        by (simp only: f(3))
      moreover have "tags(n \<mapsto> t) \<subseteq>\<^sub>m (dict_of (w_tags w))(n \<mapsto> t)"
        using inv by (auto simp: map_le_def)
      ultimately show ?thesis using t t' by simp
    qed
    ultimately show ?thesis by blast
  qed
qed

lemma full_sync_step_effect:
  assumes inv: "tags \<subseteq>\<^sub>m dict_of (w_tags w)"
    and step: "full_sync_step self users doc tags st w = (tags1, st1, w1)"
  shows "tags \<subseteq>\<^sub>m tags1"
    and "tags1 \<subseteq>\<^sub>m dict_of (w_tags w1)"
    and "dict_of (w_tags w) \<subseteq>\<^sub>m dict_of (w_tags w1)"
    and "w_users w1 = w_users w"
    and "w_documents w1 = w_documents w
         \<or> (\<exists>oid username t. d_owner doc = Some oid \<and> users oid = Some username
               \<and> tags1 (get_owner_tag_name self username) = Some t \<and> t \<notin> set (d_tags doc)
               \<and> w_documents w1
                   = map (\<lambda>d. if d_id d = d_id doc then d\<lparr>d_tags := d_tags doc @ [t]\<rparr> else d)
                       (w_documents w))"
proof -
  have all: "tags \<subseteq>\<^sub>m tags1 \<and> tags1 \<subseteq>\<^sub>m dict_of (w_tags w1)
      \<and> dict_of (w_tags w) \<subseteq>\<^sub>m dict_of (w_tags w1) \<and> w_users w1 = w_users w
      \<and> (w_documents w1 = w_documents w
         \<or> (\<exists>oid username t. d_owner doc = Some oid \<and> users oid = Some username
               \<and> tags1 (get_owner_tag_name self username) = Some t \<and> t \<notin> set (d_tags doc)
               \<and> w_documents w1
                   = map (\<lambda>d. if d_id d = d_id doc then d\<lparr>d_tags := d_tags doc @ [t]\<rparr> else d)
                       (w_documents w)))"
  proof (cases "\<not> truthy_int (d_owner doc) \<or> the (d_owner doc) \<notin> dom users")
    case True
    with step have "tags1 = tags" "w_documents w1 = w_documents w" "w_tags w1 = w_tags w"
        "w_users w1 = w_users w"
      by (auto simp: full_sync_step_def Let_def)
    with inv show ?thesis by simp
  next
    case False
    then obtain oid username where o: "d_owner doc = Some oid" "oid \<noteq> 0"
        "users oid = Some username"
      by (auto simp: truthy_int_def split: option.splits)
    let ?n = "get_owner_tag_name self username"
    let ?warn = "log WARNING ''Custom mapped tag for user does not exist, skipping document''
                   [S ?n, S username, I (d_id doc)]"
    obtain r we where e: "ensure_owner_tag self username ?n ?warn tags w = (r, we)"
      by (cases "ensure_owner_tag self username ?n ?warn tags w") auto
    have we: "we = snd (ensure_owner_tag self username ?n ?warn tags w)"
      and r: "r = fst (ensure_owner_tag self username ?n ?warn tags w)"
      by (simp_all add: e)
    note eff = ensure_owner_tag_effect [OF inv, of self username ?n WARNING
        "''Custom mapped tag for user does not exist, skipping document''"
        "[S ?n, S username, I (d_id doc)]", folded we r]
    have uwe: "w_users we = w_users w" "w_documents we = w_documents w"
      unfolding we by simp_all
    show ?thesis
    proof (cases r)
      case None
      with step False o e have "tags1 = tags" "w1 = we"
        by (auto simp: full_sync_step_def Let_def simp del: ensure_owner_tag_frame)
      then show ?thesis using eff(1,2) uwe by simp
    next
      case (Some tags')
      from eff(3) [OF Some] have t': "tags \<subseteq>\<^sub>m tags'" "?n \<in> dom tags'"
          "tags' \<subseteq>\<^sub>m dict_of (w_tags we)"
        by blast+
      then obtain t where t: "tags' ?n = Some t" by blast
      show ?thesis
      proof (cases "t \<in> set (d_tags doc)")
        case True
        with step False o e Some t have "tags1 = tags'" "w_documents w1 = w_documents we"
            "w_tags w1 = w_tags we" "w_users w1 = w_users we"
          by (auto simp: full_sync_step_def Let_def simp del: ensure_owner_tag_frame)
        then show ?thesis using t' eff(1) uwe by simp
      next
        case nin: False
        obtain ok wu where u: "update_document_tags (d_id doc) (d_tags doc @ [t]) we = (ok, wu)"
          by (cases "update_document_tags (d_id doc) (d_tags doc @ [t]) we") auto
        have wu: "wu = snd (update_document_tags (d_id doc) (d_tags doc @ [t]) we)"
          by (simp add: u)
        have fr: "w_tags wu = w_tags we" "w_users wu = w_users we"
          "w_documents wu = w_documents we
           \<or> w_documents wu
               = map (\<lambda>d. if d_id d = d_id doc then d\<lparr>d_tags := d_tags doc @ [t]\<rparr> else d)
                   (w_documents we)"
          unfolding wu by simp_all
        from step False o e Some t nin u have "tags1 = tags'" "w_documents w1 = w_documents wu"
            "w_tags w1 = w_tags wu" "w_users w1 = w_users wu"
          by (auto simp: full_sync_step_def Let_def simp del: ensure_owner_tag_frame
              split: bool.splits)
        then show ?thesis using t' eff(1) uwe fr o t nin by auto
      qed
    qed
  qed
  from all show "tags \<subseteq>\<^sub>m tags1" "tags1 \<subseteq>\<^sub>m dict_of (w_tags w1)"
    "dict_of (w_tags w) \<subseteq>\<^sub>m dict_of (w_tags w1)" "w_users w1 = w_users w"
    "w_documents w1 = w_documents w
         \<or> (\<exists>oid username t. d_owner doc = Some oid \<and> users oid = Some username
               \<and> tags1 (get_owner_tag_name self username) = Some t \<and> t \<notin> set (d_tags doc)
               \<and> w_documents w1
                   = map (\<lambda>d. if d_id d = d_id doc then d\<lparr>d_tags := d_tags doc @ [t]\<rparr> else d)
                       (w_documents w))"
    by blast+
qed

lemma patched_mono:
  assumes "patched self users tags docs e e'" "tags \<subseteq>\<^sub>m tags'" "set docs \<subseteq> set docs'"
  shows "patched self users tags' docs' e e'"
proof -
  from assms(1) consider "e' = e"
    | d oid username t where "d \<in> set docs" "d_id d = d_id e" "d_owner d = Some oid"
        "users oid = Some username" "tags (get_owner_tag_name self username) = Some t"
        "t \<notin> set (d_tags d)" "e' = e\<lparr>d_tags := d_tags d @ [t]\<rparr>"
    unfolding patched_def by blast
  then show ?thesis
  proof cases
    case 1
    then show ?thesis by (simp add: patched_def)
  next
    case 2
    have "tags' (get_owner_tag_name self username) = Some t"
      using 2(5) assms(2) by (metis domI map_le_def)
    moreover have "d \<in> set docs'" using 2(1) assms(3) by blast
    ultimately show ?thesis unfolding patched_def using 2 by blast
  qed
qed

lemma full_sync_step_patched:
  assumes inv: "tags \<subseteq>\<^sub>m dict_of (w_tags w)"
    and step: "full_sync_step self users doc tags st w = (tags1, st1, w1)"
  shows "list_all2 (patched self users tags1 [doc]) (w_documents w) (w_documents w1)"
proof -
  from full_sync_step_effect(5) [OF inv step]
  consider "w_documents w1 = w_documents w"
    | oid username t where "d_owner doc = Some oid" "users oid = Some username"
        "tags1 (get_owner_tag_name self username) = Some t" "t \<notin> set (d_tags doc)"
        "w_documents w1
           = map (\<lambda>d. if d_id d = d_id doc then d\<lparr>d_tags := d_tags doc @ [t]\<rparr> else d)
               (w_documents w)"
    by blast
  then show ?thesis
  proof cases
    case 1
    then show ?thesis by (simp add: list_all2_same patched_def)
  next
    case 2
    have "patched self users tags1 [doc] e
            (if d_id e = d_id doc then e\<lparr>d_tags := d_tags doc @ [t]\<rparr> else e)" for e
      unfolding patched_def using 2(1-4) by auto
    then show ?thesis unfolding 2(5) by (simp add: list_all2_map2 list_all2_same)
  qed
qed

lemma patched_compose:
  assumes d: "d_id doc \<notin> d_id ` set rest"
    and le: "tags1 \<subseteq>\<^sub>m tags'"
    and p1: "patched self users tags1 [doc] a b"
    and p2: "patched self users tags' rest b c"
  shows "patched self users tags' (doc # rest) a c"
proof (cases "b = a")
  case True
  with p2 show ?thesis by (auto intro: patched_mono [where tags = tags' and docs = rest])
next
  case False
  with p1 have same_id: "d_id b = d_id doc" "d_id a = d_id doc"
    unfolding patched_def by auto
  have "c = b"
  proof (rule ccontr)
    assume "c \<noteq> b"
    with p2 obtain x where "x \<in> set rest" "d_id x = d_id b"
      unfolding patched_def by blast
    with same_id d show False by (metis imageI)
  qed
  with p1 show ?thesis by (auto intro: patched_mono [where tags = tags1 and docs = "[doc]"] le)
qed

lemma full_sync_loop_effect:
  assumes "tags \<subseteq>\<^sub>m dict_of (w_tags w)" "distinct (map d_id docs)"
    and "full_sync_loop self users docs tags st w = (tags', st', w')"
  shows "tags \<subseteq>\<^sub>m tags' \<and> tags' \<subseteq>\<^sub>m dict_of (w_tags w') \<and> w_users w' = w_users w
       \<and> list_all2 (patched self users tags' docs) (w_documents w) (w_documents w')"
  using assms
proof (induction docs arbitrary: tags st w)
  case Nil
  then show ?case by (simp add: list_all2_same patched_def)
next
  case (Cons doc rest)
  obtain tags1 st1 w1 where step: "full_sync_step self users doc tags st w = (tags1, st1, w1)"
    by (cases "full_sync_step self users doc tags st w") auto
  note eff = full_sync_step_effect [OF Cons.prems(1) step]
  have loop: "full_sync_loop self users rest tags1 st1 w1 = (tags', st', w')"
    using Cons.prems(3) step by simp
  have dist: "distinct (map d_id rest)" "d_id doc \<notin> d_id ` set rest"
    using Cons.prems(2) by simp_all
  from Cons.IH [OF eff(2) dist(1) loop]
  have ih: "tags1 \<subseteq>\<^sub>m tags'" "tags' \<subseteq>\<^sub>m dict_of (w_tags w')" "w_users w' = w_users w1"
      "list_all2 (patched self users tags' rest) (w_documents w1) (w_documents w')"
    by blast+
  have "list_all2 (patched self users tags' (doc # rest)) (w_documents w) (w_documents w')"
    using full_sync_step_patched [OF Cons.prems(1) step] ih(4)
    by (rule list_all2_trans [rotated]) (rule patched_compose [OF dist(2) ih(1)])
  moreover have "tags \<subseteq>\<^sub>m tags'" using eff(1) ih(1) by (rule map_le_trans)
  ultimately show ?case using ih(2,3) eff(4) by simp
qed

lemma patched_additive:
  assumes dist: "distinct (map d_id all)" and sub: "set docs \<subseteq> set all" and e: "e \<in> set all"
    and p: "patched self users tags docs e e'"
    and le: "users \<subseteq>\<^sub>m users'" "tags \<subseteq>\<^sub>m tags'"
  shows "additive self users' tags' e e'"
proof -
  from p consider "e' = e"
    | d oid username t where "d \<in> set docs" "d_id d = d_id e" "d_owner d = Some oid"
        "users oid = Some username" "tags (get_owner_tag_name self username) = Some t"
        "t \<notin> set (d_tags d)" "e' = e\<lparr>d_tags := d_tags d @ [t]\<rparr>"
    unfolding patched_def by blast
  then show ?thesis
  proof cases
    case 1
    then show ?thesis by (simp add: additive_def)
  next
    case 2
    have "inj_on d_id (set all)" using dist by (simp add: distinct_map)
    then have de: "d = e" using 2(1,2) sub e by (meson inj_onD subsetD)
    have "users' oid = Some username" using 2(4) le(1) by (metis domI map_le_def)
    moreover have "tags' (get_owner_tag_name self username) = Some t"
      using 2(5) le(2) by (metis domI map_le_def)
    ultimately show ?thesis
      unfolding additive_def owner_tag_appended_def using 2(3,6,7) de by blast
  qed
qed

lemma sync_not_fetched:
  assumes "\<not> w_net w (length (w_requests w)) \<or> find (\<lambda>d. d_id d = i) (w_documents w) = None"
  shows "w_documents (snd (sync_document_owner_tag self i w)) = w_documents w"
    and "w_tags (snd (sync_document_owner_tag self i w)) = w_tags w"
  using assms by (auto simp: sync_document_owner_tag_def case_prod_beta)

lemma sync_as_step:
  assumes "w_net w (length (w_requests w))" "find (\<lambda>d. d_id d = i) (w_documents w) = Some doc"
  shows "w_documents (snd (sync_document_owner_tag self i w))
           = w_documents (snd (snd (full_sync_step self
               (fst (get_users (snd (get_document i
                  (log INFO ''Syncing owner tag for document'' [I i] w)))))
               doc
               (fst (get_tags (snd (get_users (snd (get_document i
                  (log INFO ''Syncing owner tag for document'' [I i] w)))))))
               st
               (snd (get_tags (snd (get_users (snd (get_document i
                  (log INFO ''Syncing owner tag for document'' [I i] w))))))))))"
    and "w_tags (snd (sync_document_owner_tag self i w))
           = w_tags (snd (snd (full_sync_step self
               (fst (get_users (snd (get_document i
                  (log INFO ''Syncing owner tag for document'' [I i] w)))))
               doc
               (fst (get_tags (snd (get_users (snd (get_document i
                  (log INFO ''Syncing owner tag for document'' [I i] w)))))))
               st
               (snd (get_tags (snd (get_users (snd (get_document i
                  (log INFO ''Syncing owner tag for document'' [I i] w))))))))))"
  using assms find_id(1) [OF assms(2)]
  by (simp_all add: sync_document_owner_tag_def full_sync_step_def case_prod_beta Let_def
      split: option.splits bool.splits)

subsection \<open>Tags are only ever appended\<close>

lemma fetched_dict_le:
  "fst (get_users w) \<subseteq>\<^sub>m dict_of (w_users w)" "fst (get_tags w) \<subseteq>\<^sub>m dict_of (w_tags w)"
  by (simp_all add: map_le_def)

lemma sync_additive:
  assumes dist: "distinct (map d_id (w_documents w))"
  shows "list_all2 (additive self (dict_of (w_users w))
            (dict_of (w_tags (snd (sync_document_owner_tag self i w)))))
           (w_documents w) (w_documents (snd (sync_document_owner_tag self i w)))"
proof (cases "w_net w (length (w_requests w)) \<and> find (\<lambda>d. d_id d = i) (w_documents w) \<noteq> None")
  case False
  then have "\<not> w_net w (length (w_requests w)) \<or> find (\<lambda>d. d_id d = i) (w_documents w) = None"
    by blast
  from sync_not_fetched(1) [OF this] show ?thesis
    by (simp add: list_all2_same additive_def)
next
  case True
  then obtain doc where net: "w_net w (length (w_requests w))"
      and doc: "find (\<lambda>d. d_id d = i) (w_documents w) = Some doc"
    by blast
  let ?w1 = "snd (get_document i (log INFO ''Syncing owner tag for document'' [I i] w))"
  let ?U = "fst (get_users ?w1)"
  let ?T = "fst (get_tags (snd (get_users ?w1)))"
  let ?W = "snd (get_tags (snd (get_users ?w1)))"
  let ?st = "\<lparr>total = 0, processed = 0, succeeded = 0, failed = 0\<rparr>"
  obtain tags1 st1 w1 where step: "full_sync_step self ?U doc ?T ?st ?W = (tags1, st1, w1)"
    by (cases "full_sync_step self ?U doc ?T ?st ?W") auto
  have inv: "?T \<subseteq>\<^sub>m dict_of (w_tags ?W)"
    using fetched_dict_le(2) [of "snd (get_users ?w1)"] by simp
  have docs: "w_documents (snd (sync_document_owner_tag self i w)) = w_documents w1"
    and tags: "w_tags (snd (sync_document_owner_tag self i w)) = w_tags w1"
    using sync_as_step [OF net doc, of self ?st] step by simp_all
  have W: "w_documents ?W = w_documents w" by simp
  have U: "?U \<subseteq>\<^sub>m dict_of (w_users w)"
    using fetched_dict_le(1) [of ?w1] by simp
  note eff = full_sync_step_effect [OF inv step]
  have p: "list_all2 (patched self ?U tags1 [doc]) (w_documents w) (w_documents w1)"
    using full_sync_step_patched [OF inv step] unfolding W .
  have "doc \<in> set (w_documents w)" using find_id(2) [OF doc] .
  then have sub: "set [doc] \<subseteq> set (w_documents w)" by simp
  have "list_all2 (additive self (dict_of (w_users w)) (dict_of (w_tags w1)))
          (w_documents w) (w_documents w1)"
    using p
  proof (rule list.rel_mono_strong)
    fix e e' assume "e \<in> set (w_documents w)" "patched self ?U tags1 [doc] e e'"
    then show "additive self (dict_of (w_users w)) (dict_of (w_tags w1)) e e'"
      using patched_additive [OF dist sub _ _ U eff(2)] by blast
  qed
  then show ?thesis by (simp only: docs tags)
qed

lemma full_sync_world:
  assumes "documents_fetched w" "w_documents w \<noteq> []"
  shows "w_documents (snd (full_sync self w)) = w_documents (snd (snd
    (full_sync_loop self
      (fst (get_users (snd (get_all_documents (log INFO ''Starting full sync of all documents'' [] w)))))
      (w_documents w)
      (fst (get_tags (snd (get_users (snd (get_all_documents (log INFO ''Starting full sync of all documents'' [] w)))))))
      \<lparr>total = length (w_documents w), processed = 0, succeeded = 0, failed = 0\<rparr>
      (log INFO ''Found documents to process'' [I (int (length (w_documents w)))] (snd (get_tags (snd (get_users (snd (get_all_documents (log INFO ''Starting full sync of all documents'' [] w)))))))))))"
    and "w_tags (snd (full_sync self w)) = w_tags (snd (snd
    (full_sync_loop self
      (fst (get_users (snd (get_all_documents (log INFO ''Starting full sync of all documents'' [] w)))))
      (w_documents w)
      (fst (get_tags (snd (get_users (snd (get_all_documents (log INFO ''Starting full sync of all documents'' [] w)))))))
      \<lparr>total = length (w_documents w), processed = 0, succeeded = 0, failed = 0\<rparr>
      (log INFO ''Found documents to process'' [I (int (length (w_documents w)))] (snd (get_tags (snd (get_users (snd (get_all_documents (log INFO ''Starting full sync of all documents'' [] w)))))))))))"
  using assms by (simp_all add: full_sync_def case_prod_beta Let_def)

lemma full_sync_additive:
  assumes dist: "distinct (map d_id (w_documents w))"
  shows "list_all2 (additive self (dict_of (w_users w)) (dict_of (w_tags (snd (full_sync self w)))))
           (w_documents w) (w_documents (snd (full_sync self w)))"
proof (cases "documents_fetched w \<and> w_documents w \<noteq> []")
  case False
  then have "\<not> documents_fetched w \<or> w_documents w = []" by blast
  from full_sync_aborted [OF this, of self]
  have "w_documents (snd (full_sync self w)) = w_documents w" by simp
  then show ?thesis by (simp add: list_all2_same additive_def)
next
  case True
  let ?w1 = "snd (get_all_documents (log INFO ''Starting full sync of all documents'' [] w))"
  let ?U = "fst (get_users ?w1)"
  let ?T = "fst (get_tags (snd (get_users ?w1)))"
  let ?W = "log INFO ''Found documents to process'' [I (int (length (w_documents w)))]
              (snd (get_tags (snd (get_users ?w1))))"
  let ?st = "\<lparr>total = length (w_documents w), processed = 0, succeeded = 0, failed = 0\<rparr>"
  obtain tags' st' w' where loop: "full_sync_loop self ?U (w_documents w) ?T ?st ?W = (tags', st', w')"
    by (cases "full_sync_loop self ?U (w_documents w) ?T ?st ?W") auto
  have inv: "?T \<subseteq>\<^sub>m dict_of (w_tags ?W)"
    using fetched_dict_le(2) [of "snd (get_users ?w1)"] by simp
  have docs: "w_documents (snd (full_sync self w)) = w_documents w'"
    and tags: "w_tags (snd (full_sync self w)) = w_tags w'"
    using full_sync_world [of w self] True loop by simp_all
  have W: "w_documents ?W = w_documents w" by simp
  have U: "?U \<subseteq>\<^sub>m dict_of (w_users w)"
    using fetched_dict_le(1) [of ?w1] by simp
  from full_sync_loop_effect [OF inv dist loop]
  have le: "tags' \<subseteq>\<^sub>m dict_of (w_tags w')"
    and p: "list_all2 (patched self ?U tags' (w_documents w)) (w_documents w) (w_documents w')"
    unfolding W by blast+
  have "list_all2 (additive self (dict_of (w_users w)) (dict_of (w_tags w')))
          (w_documents w) (w_documents w')"
    using p
  proof (rule list.rel_mono_strong)
    fix e e' assume "e \<in> set (w_documents w)" "patched self ?U tags' (w_documents w) e e'"
    then show "additive self (dict_of (w_users w)) (dict_of (w_tags w')) e e'"
      using patched_additive [OF dist subset_refl _ _ U le] by blast
  qed
  then show ?thesis by (simp only: docs tags)
qed

text \<open>
  C2. Let the documents of the platform have distinct identifiers. In every run of the
  synchronisation of one document and of the full synchronisation, every document of
  the platform is afterwards either exactly as before, or as before with one identifier
  appended to its tag list: the identifier that the tag directory gives for the tag name
  of the document's owner, which was not in the list. So no tag identifier is ever
  removed.
\<close>

theorem tags_never_removed:
  assumes "distinct (map d_id (w_documents w))"
  shows "list_all2 (additive self (dict_of (w_users w))
            (dict_of (w_tags (snd (sync_document_owner_tag self i w)))))
           (w_documents w) (w_documents (snd (sync_document_owner_tag self i w)))
       \<and> list_all2 (additive self (dict_of (w_users w))
            (dict_of (w_tags (snd (full_sync self w)))))
           (w_documents w) (w_documents (snd (full_sync self w)))"
  using sync_additive [OF assms] full_sync_additive [OF assms] by blast

theorem tags_never_removed_witness:
  "distinct (map d_id (w_documents bob_world))
   \<and> list_all2 (additive default_sync (dict_of (w_users bob_world))
            (dict_of (w_tags (snd (sync_document_owner_tag default_sync 11 bob_world)))))
           (w_documents bob_world)
           (w_documents (snd (sync_document_owner_tag default_sync 11 bob_world)))
   \<and> map d_tags (w_documents (snd (sync_document_owner_tag default_sync 11 bob_world))) = [[7, 8]]
   \<and> list_all2 (additive default_sync (dict_of (w_users bob_world))
            (dict_of (w_tags (snd (full_sync default_sync bob_world)))))
           (w_documents bob_world) (w_documents (snd (full_sync default_sync bob_world)))
   \<and> map d_tags (w_documents (snd (full_sync default_sync bob_world))) = [[7, 8]]"
proof -
  have d: "distinct (map d_id (w_documents bob_world))" by (simp add: bob_world_def)
  have s: "map d_tags (w_documents (snd (sync_document_owner_tag default_sync 11 bob_world)))
             = [[7, 8]]"
    by (simp add: sync_defs default_sync_def bob_world_def)
  have f: "map d_tags (w_documents (snd (full_sync default_sync bob_world))) = [[7, 8]]"
    by (simp add: full_sync_defs default_sync_def bob_world_def)
  from tags_never_removed [OF d, of default_sync 11] d s f show ?thesis by blast
qed

subsection \<open>Idempotence\<close>

lemma sync_documents_cases:
  "w_documents (snd (sync_document_owner_tag self i w)) = w_documents w
   \<or> (\<exists>doc t. find (\<lambda>d. d_id d = i) (w_documents w) = Some doc \<and> t \<notin> set (d_tags doc)
         \<and> w_documents (snd (sync_document_owner_tag self i w))
             = map (\<lambda>d. if d_id d = i then d\<lparr>d_tags := d_tags doc @ [t]\<rparr> else d)
                 (w_documents w))"
proof (cases "w_net w (length (w_requests w)) \<and> find (\<lambda>d. d_id d = i) (w_documents w) \<noteq> None")
  case False
  then have "\<not> w_net w (length (w_requests w)) \<or> find (\<lambda>d. d_id d = i) (w_documents w) = None"
    by blast
  from sync_not_fetched(1) [OF this] show ?thesis by blast
next
  case True
  then obtain doc where net: "w_net w (length (w_requests w))"
      and doc: "find (\<lambda>d. d_id d = i) (w_documents w) = Some doc"
    by blast
  let ?w1 = "snd (get_document i (log INFO ''Syncing owner tag for document'' [I i] w))"
  let ?U = "fst (get_users ?w1)"
  let ?T = "fst (get_tags (snd (get_users ?w1)))"
  let ?W = "snd (get_tags (snd (get_users ?w1)))"
  let ?st = "\<lparr>total = 0, processed = 0, succeeded = 0, failed = 0\<rparr>"
  obtain tags1 st1 w1 where step: "full_sync_step self ?U doc ?T ?st ?W = (tags1, st1, w1)"
    by (cases "full_sync_step self ?U doc ?T ?st ?W") auto
  have inv: "?T \<subseteq>\<^sub>m dict_of (w_tags ?W)"
    using fetched_dict_le(2) [of "snd (get_users ?w1)"] by simp
  have docs: "w_documents (snd (sync_document_owner_tag self i w)) = w_documents w1"
    using sync_as_step(1) [OF net doc, of self ?st] step by simp
  have W: "w_documents ?W = w_documents w" by simp
  have i: "d_id doc = i" using find_id(1) [OF doc] .
  from full_sync_step_effect(5) [OF inv step] show ?thesis
    unfolding docs W i using doc by blast
qed

text \<open>
  C3, as amended. If the document, the users and the tags are fetched and the tag that
  the directory gives for the owner's tag name is already on the document, the
  synchronisation changes nothing on the platform, sends no POST and no PATCH, and returns
  \<open>True\<close>. Consequently, when no request fails and the platform hands out positive tag
  identifiers, a second call right after the first leaves documents and tags as the
  first call left them and returns the same result. Whatever the network does, a call
  never makes a tag list contain an identifier twice.
\<close>

theorem sync_idempotent_when_requests_succeed:
  "(w_net w (length (w_requests w)) \<and> w_net w (Suc (length (w_requests w)))
      \<and> w_net w (Suc (Suc (length (w_requests w))))
      \<and> find (\<lambda>d. d_id d = i) (w_documents w) = Some doc
      \<and> d_owner doc = Some oid \<and> oid \<noteq> 0 \<and> dict_of (w_users w) oid = Some username
      \<and> dict_of (w_tags w) (get_owner_tag_name self username) = Some t
      \<and> t \<in> set (d_tags doc) \<longrightarrow>
        fst (sync_document_owner_tag self i w)
      \<and> w_documents (snd (sync_document_owner_tag self i w)) = w_documents w
      \<and> w_tags (snd (sync_document_owner_tag self i w)) = w_tags w
      \<and> w_requests (snd (sync_document_owner_tag self i w))
          = w_requests w @ [GET_document i, GET_users, GET_tags])
   \<and> ((\<forall>k. w_net w k) \<and> 0 < w_next_tag_id w \<longrightarrow>
        w_documents (snd (sync_document_owner_tag self i (snd (sync_document_owner_tag self i w))))
          = w_documents (snd (sync_document_owner_tag self i w))
      \<and> w_tags (snd (sync_document_owner_tag self i (snd (sync_document_owner_tag self i w))))
          = w_tags (snd (sync_document_owner_tag self i w))
      \<and> fst (sync_document_owner_tag self i (snd (sync_document_owner_tag self i w)))
          = fst (sync_document_owner_tag self i w))
   \<and> ((\<forall>d\<in>set (w_documents w). distinct (d_tags d)) \<longrightarrow>
        (\<forall>d\<in>set (w_documents (snd (sync_document_owner_tag self i w))). distinct (d_tags d)))"
proof -
  have a: "fst (sync_document_owner_tag self i w)
      \<and> w_documents (snd (sync_document_owner_tag self i w)) = w_documents w
      \<and> w_tags (snd (sync_document_owner_tag self i w)) = w_tags w
      \<and> w_requests (snd (sync_document_owner_tag self i w))
          = w_requests w @ [GET_document i, GET_users, GET_tags]"
    if "w_net w (length (w_requests w))" "w_net w (Suc (length (w_requests w)))"
      "w_net w (Suc (Suc (length (w_requests w))))"
      "find (\<lambda>d. d_id d = i) (w_documents w) = Some doc"
      "d_owner doc = Some oid" "oid \<noteq> 0" "dict_of (w_users w) oid = Some username"
      "dict_of (w_tags w) (get_owner_tag_name self username) = Some t" "t \<in> set (d_tags doc)"
    using that
    by (simp add: sync_document_owner_tag_def case_prod_beta Let_def truthy_int_def domIff)
  have b: "w_documents (snd (sync_document_owner_tag self i (snd (sync_document_owner_tag self i w))))
          = w_documents (snd (sync_document_owner_tag self i w))
      \<and> w_tags (snd (sync_document_owner_tag self i (snd (sync_document_owner_tag self i w))))
          = w_tags (snd (sync_document_owner_tag self i w))
      \<and> fst (sync_document_owner_tag self i (snd (sync_document_owner_tag self i w)))
          = fst (sync_document_owner_tag self i w)"
    if net: "\<forall>k. w_net w k" and next_id: "0 < w_next_tag_id w"
  proof -
    let ?w1 = "snd (sync_document_owner_tag self i w)"
    let ?w2 = "snd (sync_document_owner_tag self i ?w1)"
    let ?p = "platform_of w"
    note r1 = sync_refines_reconcile [OF net next_id, of self i]
    have net1: "\<forall>k. w_net ?w1 k" using net by simp
    have "p_next_tag_id (platform_of ?w1) = w_next_tag_id ?w1" by (simp add: platform_of_def)
    moreover have "0 < p_next_tag_id (snd (reconcile self i ?p))"
      using next_id by (intro reconcile_next_id) (simp add: platform_of_def)
    ultimately have next1: "0 < w_next_tag_id ?w1" using r1(2) by simp
    note r2 = sync_refines_reconcile [OF net1 next1, of self i]
    note idem = reconcile_idem [of self i ?p]
    have p: "platform_of ?w2 = platform_of ?w1"
      using r2(2) r1(2) idem by simp
    have "w_documents ?w2 = p_documents (platform_of ?w2)"
      "w_tags ?w2 = p_tags (platform_of ?w2)"
      "w_documents ?w1 = p_documents (platform_of ?w1)"
      "w_tags ?w1 = p_tags (platform_of ?w1)"
      by (simp_all add: platform_of_def)
    then have "w_documents ?w2 = w_documents ?w1" "w_tags ?w2 = w_tags ?w1"
      using p by simp_all
    moreover have "fst (sync_document_owner_tag self i ?w1) = fst (sync_document_owner_tag self i w)"
      using r2(1) r1 idem by simp
    ultimately show ?thesis by blast
  qed
  have c: "\<forall>d\<in>set (w_documents (snd (sync_document_owner_tag self i w))). distinct (d_tags d)"
    if dt: "\<forall>d\<in>set (w_documents w). distinct (d_tags d)"
  proof -
    from sync_documents_cases [of self i w]
    consider "w_documents (snd (sync_document_owner_tag self i w)) = w_documents w"
      | doc t where "find (\<lambda>d. d_id d = i) (w_documents w) = Some doc" "t \<notin> set (d_tags doc)"
          "w_documents (snd (sync_document_owner_tag self i w))
             = map (\<lambda>d. if d_id d = i then d\<lparr>d_tags := d_tags doc @ [t]\<rparr> else d) (w_documents w)"
      by blast
    then show ?thesis
    proof cases
      case 1
      with dt show ?thesis by simp
    next
      case 2
      have "distinct (d_tags doc)" using dt find_id(2) [OF 2(1)] by blast
      with 2(2) have "distinct (d_tags doc @ [t])" by simp
      with dt show ?thesis unfolding 2(3) by auto
    qed
  qed
  from a b c show ?thesis by blast
qed

theorem sync_idempotent_when_requests_succeed_witness:
  "0 < w_next_tag_id bob_world
   \<and> map d_tags (w_documents (snd (sync_document_owner_tag default_sync 11 bob_world))) = [[7, 8]]
   \<and> w_documents (snd (sync_document_owner_tag default_sync 11
        (snd (sync_document_owner_tag default_sync 11 bob_world))))
       = w_documents (snd (sync_document_owner_tag default_sync 11 bob_world))
   \<and> fst (sync_document_owner_tag default_sync 11
        (snd (sync_document_owner_tag default_sync 11 bob_world)))
   \<and> list_all (\<lambda>d. distinct (d_tags d))
         (w_documents (snd (sync_document_owner_tag default_sync 11 bob_world)))
   \<and> dict_of (w_tags tagged_world) (get_owner_tag_name default_sync ''bob'') = Some 8
   \<and> fst (sync_document_owner_tag default_sync 11 tagged_world)
   \<and> w_documents (snd (sync_document_owner_tag default_sync 11 tagged_world))
       = w_documents tagged_world
   \<and> w_requests (snd (sync_document_owner_tag default_sync 11 tagged_world))
       = [GET_document 11, GET_users, GET_tags]"
proof -
  have h: "w_net tagged_world (length (w_requests tagged_world))"
    "w_net tagged_world (Suc (length (w_requests tagged_world)))"
    "w_net tagged_world (Suc (Suc (length (w_requests tagged_world))))"
    "find (\<lambda>d. d_id d = 11) (w_documents tagged_world) = Some (hd (w_documents tagged_world))"
    "d_owner (hd (w_documents tagged_world)) = Some 4" "(4::int) \<noteq> 0"
    "dict_of (w_users tagged_world) 4 = Some ''bob''"
    "dict_of (w_tags tagged_world) (get_owner_tag_name default_sync ''bob'') = Some 8"
    "8 \<in> set (d_tags (hd (w_documents tagged_world)))"
    "w_requests tagged_world = []"
    by (simp_all add: tagged_world_def bob_world_def dict_of_def get_owner_tag_name_def
        default_sync_def PaperlessSync_init_def)
  from sync_idempotent_when_requests_succeed
    [of tagged_world 11 "hd (w_documents tagged_world)" 4 "''bob''" default_sync 8] h
  have tagged: "fst (sync_document_owner_tag default_sync 11 tagged_world)
      \<and> w_documents (snd (sync_document_owner_tag default_sync 11 tagged_world))
          = w_documents tagged_world
      \<and> w_requests (snd (sync_document_owner_tag default_sync 11 tagged_world))
          = [] @ [GET_document 11, GET_users, GET_tags]"
    by metis
  have n: "\<forall>k. w_net bob_world k" "0 < w_next_tag_id bob_world"
    and dt: "\<forall>d\<in>set (w_documents bob_world). distinct (d_tags d)"
    by (simp_all add: bob_world_def)
  have s: "map d_tags (w_documents (snd (sync_document_owner_tag default_sync 11 bob_world)))
             = [[7, 8]]"
    and r: "fst (sync_document_owner_tag default_sync 11 bob_world)"
    by (simp_all add: sync_defs default_sync_def bob_world_def)
  from sync_idempotent_when_requests_succeed
    [of bob_world 11 "hd (w_documents bob_world)" 4 "''bob''" default_sync 8] n dt s r
  have bob: "w_documents (snd (sync_document_owner_tag default_sync 11
        (snd (sync_document_owner_tag default_sync 11 bob_world))))
       = w_documents (snd (sync_document_owner_tag default_sync 11 bob_world))
   \<and> fst (sync_document_owner_tag default_sync 11
        (snd (sync_document_owner_tag default_sync 11 bob_world)))
   \<and> (\<forall>d\<in>set (w_documents (snd (sync_document_owner_tag default_sync 11 bob_world))).
         distinct (d_tags d))"
    by blast
  from n s bob h(8) tagged show ?thesis by (simp add: list_all_iff)
qed

text \<open>
  C3 as stated fails when a request of the first call fails: here the request for the
  document fails in the first call, which leaves the tag list \<open>[7]\<close>, and gets through
  in the second call, which creates the tag and leaves \<open>[7, 8]\<close>.
\<close>

theorem sync_twice_after_failure_counterexample:
  "map d_tags (w_documents (snd (sync_document_owner_tag default_sync 11
      (bob_world\<lparr>w_net := (\<lambda>k. k \<noteq> 0)\<rparr>)))) = [[7]]
   \<and> map d_tags (w_documents (snd (sync_document_owner_tag default_sync 11
      (snd (sync_document_owner_tag default_sync 11 (bob_world\<lparr>w_net := (\<lambda>k. k \<noteq> 0)\<rparr>))))))
       = [[7, 8]]"
  by (simp add: sync_defs default_sync_def bob_world_def)

end
